theory Spec2Isabelle
  imports
    Main
    "HOL-Library.Word"
    "HOL-Library.Char_ord"
    "HOL-Library.List_Lexorder"
    "HOL-Library.Multiset"
    "HOL-Library.AList"
begin

unbundle bit_operations_syntax

section \<open>Python values and exceptions\<close>

text \<open>
  Exceptions of the source are values of type \<open>error\<close>; a function that can raise returns
  \<open>error + 'a\<close> with \<open>Inl\<close> for the raised exception.  \<open>LibraryError\<close> stands for
  whatever an external array library (numpy, zarr, h5py) raises.
\<close>

datatype error =
    TypeError | ValueError | KeyError | AttributeError | RuntimeError
  | FileNotFoundError | FileExistsError | NotADirectoryError | JSONDecodeError | LibraryError

text \<open>
  Values that \<open>json.load\<close> returns and \<open>json.dumps\<close> accepts: \<open>None\<close>, \<open>bool\<close>,
  \<open>int\<close>, \<open>str\<close>, \<open>list\<close> and \<open>dict\<close> with string keys.  A dict is an association
  list in insertion order (Python dicts keep it).  Strings are lists of 8-bit characters
  read as the code points below 256; floats are not modelled.
\<close>

datatype json =
    JNull | JBool bool | JInt int | JStr string
  | JList "json list" | JDict "(string \<times> json) list"

definition bind_err :: "error + 'a \<Rightarrow> ('a \<Rightarrow> error + 'b) \<Rightarrow> error + 'b" where
  "bind_err m f = (case m of Inl e \<Rightarrow> Inl e | Inr x \<Rightarrow> f x)"

text \<open>Evaluating a list of computations left to right; the first exception wins.\<close>

fun sequence_err :: "(error + 'a) list \<Rightarrow> error + 'a list" where
  "sequence_err [] = Inr []"
| "sequence_err (m # ms) =
     (case m of Inl e \<Rightarrow> Inl e
      | Inr x \<Rightarrow> (case sequence_err ms of Inl e \<Rightarrow> Inl e | Inr xs \<Rightarrow> Inr (x # xs)))"

text \<open>\<open>d.get(k)\<close> and \<open>d[k] = v\<close> on a dict: assignment keeps the position of a key
  that is already present and appends a new key at the end.\<close>

definition dict_get :: "('k \<times> 'v) list \<Rightarrow> 'k \<Rightarrow> 'v option" where
  "dict_get d k = map_of d k"

definition dict_set :: "('k \<times> 'v) list \<Rightarrow> 'k \<Rightarrow> 'v \<Rightarrow> ('k \<times> 'v) list" where
  "dict_set d k v = AList.update k v d"

text \<open>\<open>dict(pairs)\<close> and a dict comprehension: the pairs are assigned one after another.\<close>

definition dict_of :: "('k \<times> 'v) list \<Rightarrow> ('k \<times> 'v) list" where
  "dict_of kvs = fold (\<lambda>(k, v) d. dict_set d k v) kvs []"

subsection \<open>Comparison of values: \<open>==\<close> and \<open><\<close>\<close>

text \<open>\<open>bool\<close> is a subclass of \<open>int\<close>: \<open>True == 1\<close> and \<open>False < 1\<close>.\<close>

fun py_num :: "json \<Rightarrow> int option" where
  "py_num (JBool b) = Some (if b then 1 else 0)"
| "py_num (JInt i) = Some i"
| "py_num _ = None"

fun py_eq :: "json \<Rightarrow> json \<Rightarrow> bool"
  and py_eq_list :: "json list \<Rightarrow> json list \<Rightarrow> bool"
  and dict_sub :: "(string \<times> json) list \<Rightarrow> (string \<times> json) list \<Rightarrow> bool"
  and dict_has :: "string \<Rightarrow> json \<Rightarrow> (string \<times> json) list \<Rightarrow> bool"
where
  "py_eq JNull y = (y = JNull)"
| "py_eq (JBool b) y = (py_num y = Some (if b then 1 else 0))"
| "py_eq (JInt i) y = (py_num y = Some i)"
| "py_eq (JStr s) y = (y = JStr s)"
| "py_eq (JList xs) y = (case y of JList ys \<Rightarrow> py_eq_list xs ys | _ \<Rightarrow> False)"
| "py_eq (JDict a) y =
     (case y of JDict b \<Rightarrow> length a = length b \<and> dict_sub a b | _ \<Rightarrow> False)"
| "py_eq_list [] ys = (ys = [])"
| "py_eq_list (x # xs) ys = (case ys of [] \<Rightarrow> False | y # ys' \<Rightarrow> py_eq x y \<and> py_eq_list xs ys')"
| "dict_sub [] b = True"
| "dict_sub (kv # a) b = (dict_has (fst kv) (snd kv) b \<and> dict_sub a b)"
| "dict_has k v [] = False"
| "dict_has k v (kw # b) = (if k = fst kw then py_eq v (snd kw) else dict_has k v b)"

text \<open>
  \<open>x < y\<close>: numbers by value, strings by code point, lists lexicographically (the first
  position where the elements are not \<open>==\<close> decides, then the lengths); every other
  combination raises \<open>TypeError\<close>.
\<close>

fun py_lt :: "json \<Rightarrow> json \<Rightarrow> error + bool"
  and lt_list :: "json list \<Rightarrow> json list \<Rightarrow> error + bool"
where
  "py_lt (JList xs) y = (case y of JList ys \<Rightarrow> lt_list xs ys | _ \<Rightarrow> Inl TypeError)"
| "py_lt (JStr s) y = (case y of JStr t \<Rightarrow> Inr (s < t) | _ \<Rightarrow> Inl TypeError)"
| "py_lt (JBool b) y =
     (case py_num y of Some j \<Rightarrow> Inr ((if b then 1 else 0) < j) | None \<Rightarrow> Inl TypeError)"
| "py_lt (JInt i) y = (case py_num y of Some j \<Rightarrow> Inr (i < j) | None \<Rightarrow> Inl TypeError)"
| "py_lt JNull y = Inl TypeError"
| "py_lt (JDict a) y = Inl TypeError"
| "lt_list [] ys = Inr (ys \<noteq> [])"
| "lt_list (x # xs) ys =
     (case ys of [] \<Rightarrow> Inr False
      | y # ys' \<Rightarrow> if py_eq x y then lt_list xs ys' else py_lt x y)"

subsection \<open>\<open>sorted\<close>\<close>

text \<open>
  \<open>sorted(xs, key=k)\<close> is a stable sort that uses only \<open><\<close> on the keys and fails when
  a comparison raises.  It is modelled by straight insertion; CPython merges runs, which
  gives the same list whenever no comparison raises and \<open><\<close> orders the keys.
\<close>

fun insort_py :: "('a \<Rightarrow> json) \<Rightarrow> 'a \<Rightarrow> 'a list \<Rightarrow> error + 'a list" where
  "insort_py k x [] = Inr [x]"
| "insort_py k x (y # ys) =
     (case py_lt (k y) (k x) of
        Inl e \<Rightarrow> Inl e
      | Inr True \<Rightarrow> (case insort_py k x ys of Inl e \<Rightarrow> Inl e | Inr r \<Rightarrow> Inr (y # r))
      | Inr False \<Rightarrow> Inr (x # y # ys))"

fun sorted_py :: "('a \<Rightarrow> json) \<Rightarrow> 'a list \<Rightarrow> error + 'a list" where
  "sorted_py k [] = Inr []"
| "sorted_py k (x # xs) =
     (case sorted_py k xs of Inl e \<Rightarrow> Inl e | Inr s \<Rightarrow> insort_py k x s)"

section \<open>\<open>json.dumps(obj, sort_keys=True, separators=(",", ":"))\<close>\<close>

definition digit_char :: "nat \<Rightarrow> char" where
  "digit_char d = ''0123456789'' ! (d mod 10)"

function str_nat :: "nat \<Rightarrow> string" where
  "str_nat n = (if n < 10 then [digit_char n] else str_nat (n div 10) @ [digit_char (n mod 10)])"
  by pat_completeness auto
termination
  by (relation "measure id") auto

definition str_int :: "int \<Rightarrow> string" where
  "str_int i = (if i < 0 then CHR ''-'' # str_nat (nat (- i)) else str_nat (nat i))"

definition hex_digit :: "nat \<Rightarrow> char" where
  "hex_digit n = ''0123456789abcdef'' ! (n mod 16)"

text \<open>With \<open>ensure_ascii\<close> (the default) every character outside \<open>' '..'~'\<close>, the quote
  and the backslash are escaped, so the output is pure ASCII.\<close>

definition escape_char :: "char \<Rightarrow> string" where
  "escape_char c =
     (let n = (of_char c :: nat) in
      if n = 0x22 then [CHR 0x5C, CHR 0x22]
      else if n = 0x5C then [CHR 0x5C, CHR 0x5C]
      else if n = 0x0A then [CHR 0x5C, CHR ''n'']
      else if n = 0x0D then [CHR 0x5C, CHR ''r'']
      else if n = 0x09 then [CHR 0x5C, CHR ''t'']
      else if n = 0x08 then [CHR 0x5C, CHR ''b'']
      else if n = 0x0C then [CHR 0x5C, CHR ''f'']
      else if n < 0x20 \<or> 0x7E < n
        then [CHR 0x5C, CHR ''u'', CHR ''0'', CHR ''0'', hex_digit (n div 16), hex_digit n]
      else [c])"

definition encode_str :: "string \<Rightarrow> string" where
  "encode_str s = [CHR 0x22] @ concat (map escape_char s) @ [CHR 0x22]"

fun join :: "string \<Rightarrow> string list \<Rightarrow> string" where
  "join sep [] = []"
| "join sep [x] = x"
| "join sep (x # y # ys) = x @ sep @ join sep (y # ys)"

text \<open>\<open>sort_keys=True\<close> emits the items of every dict in the order of their keys.\<close>

fun dumps :: "json \<Rightarrow> string" where
  "dumps JNull = ''null''"
| "dumps (JBool b) = (if b then ''true'' else ''false'')"
| "dumps (JInt i) = str_int i"
| "dumps (JStr s) = encode_str s"
| "dumps (JList xs) = ''['' @ join '','' (map dumps xs) @ '']''"
| "dumps (JDict kvs) =
     ''{'' @ join '','' (map (\<lambda>kv. encode_str (fst kv) @ '':'' @ dumps (snd kv))
                          (sort_key fst kvs)) @ ''}''"

section \<open>SHA-256 (\<open>hashlib.sha256(...).hexdigest()\<close>)\<close>

text \<open>The hash function of FIPS 180-4 on a byte string, and its lowercase hexadecimal
  digest.\<close>

type_synonym byte = "8 word"
type_synonym w32 = "32 word"
type_synonym sha_state = "w32 \<times> w32 \<times> w32 \<times> w32 \<times> w32 \<times> w32 \<times> w32 \<times> w32"

text \<open>The round constants, four to a row.\<close>

definition K256 :: "w32 list" where
  "K256 = concat [
    [0x428a2f98, 0x71374491, 0xb5c0fbcf, 0xe9b5dba5],
    [0x3956c25b, 0x59f111f1, 0x923f82a4, 0xab1c5ed5],
    [0xd807aa98, 0x12835b01, 0x243185be, 0x550c7dc3],
    [0x72be5d74, 0x80deb1fe, 0x9bdc06a7, 0xc19bf174],
    [0xe49b69c1, 0xefbe4786, 0x0fc19dc6, 0x240ca1cc],
    [0x2de92c6f, 0x4a7484aa, 0x5cb0a9dc, 0x76f988da],
    [0x983e5152, 0xa831c66d, 0xb00327c8, 0xbf597fc7],
    [0xc6e00bf3, 0xd5a79147, 0x06ca6351, 0x14292967],
    [0x27b70a85, 0x2e1b2138, 0x4d2c6dfc, 0x53380d13],
    [0x650a7354, 0x766a0abb, 0x81c2c92e, 0x92722c85],
    [0xa2bfe8a1, 0xa81a664b, 0xc24b8b70, 0xc76c51a3],
    [0xd192e819, 0xd6990624, 0xf40e3585, 0x106aa070],
    [0x19a4c116, 0x1e376c08, 0x2748774c, 0x34b0bcb5],
    [0x391c0cb3, 0x4ed8aa4a, 0x5b9cca4f, 0x682e6ff3],
    [0x748f82ee, 0x78a5636f, 0x84c87814, 0x8cc70208],
    [0x90befffa, 0xa4506ceb, 0xbef9a3f7, 0xc67178f2]]"

definition H256 :: sha_state where
  "H256 = (0x6a09e667, 0xbb67ae85, 0x3c6ef372, 0xa54ff53a,
           0x510e527f, 0x9b05688c, 0x1f83d9ab, 0x5be0cd19)"

definition rotr :: "nat \<Rightarrow> w32 \<Rightarrow> w32" where
  "rotr n x = drop_bit n x OR push_bit (32 - n) x"

definition Ch :: "w32 \<Rightarrow> w32 \<Rightarrow> w32 \<Rightarrow> w32" where
  "Ch x y z = (x AND y) XOR (NOT x AND z)"

definition Maj :: "w32 \<Rightarrow> w32 \<Rightarrow> w32 \<Rightarrow> w32" where
  "Maj x y z = (x AND y) XOR (x AND z) XOR (y AND z)"

definition bsig0 :: "w32 \<Rightarrow> w32" where
  "bsig0 x = rotr 2 x XOR rotr 13 x XOR rotr 22 x"

definition bsig1 :: "w32 \<Rightarrow> w32" where
  "bsig1 x = rotr 6 x XOR rotr 11 x XOR rotr 25 x"

definition ssig0 :: "w32 \<Rightarrow> w32" where
  "ssig0 x = rotr 7 x XOR rotr 18 x XOR drop_bit 3 x"

definition ssig1 :: "w32 \<Rightarrow> w32" where
  "ssig1 x = rotr 17 x XOR rotr 19 x XOR drop_bit 10 x"

definition be64 :: "64 word \<Rightarrow> byte list" where
  "be64 n = map (\<lambda>i. ucast (drop_bit (8 * (7 - i)) n)) [0..<8]"

definition sha_pad :: "byte list \<Rightarrow> byte list" where
  "sha_pad m =
     m @ [0x80] @ replicate ((55 + 64 - length m mod 64) mod 64) 0 @ be64 (of_nat (8 * length m))"

fun be_words :: "byte list \<Rightarrow> w32 list" where
  "be_words (a # b # c # d # r) =
     (push_bit 24 (ucast a) OR push_bit 16 (ucast b) OR push_bit 8 (ucast c) OR ucast d)
       # be_words r"
| "be_words _ = []"

fun schedule :: "nat \<Rightarrow> w32 list \<Rightarrow> w32 list" where
  "schedule 0 w = w"
| "schedule (Suc n) w =
     (let l = length w
      in schedule n
           (w @ [ssig1 (w ! (l - 2)) + w ! (l - 7) + ssig0 (w ! (l - 15)) + w ! (l - 16)]))"

fun sha_round :: "w32 \<times> w32 \<Rightarrow> sha_state \<Rightarrow> sha_state" where
  "sha_round (k, w) (a, b, c, d, e, f, g, h) =
     (let t1 = h + bsig1 e + Ch e f g + k + w;
          t2 = bsig0 a + Maj a b c
      in (t1 + t2, a, b, c, d + t1, e, f, g))"

fun add_state :: "sha_state \<Rightarrow> sha_state \<Rightarrow> sha_state" where
  "add_state (a, b, c, d, e, f, g, h) (a', b', c', d', e', f', g', h') =
     (a + a', b + b', c + c', d + d', e + e', f + f', g + g', h + h')"

definition compress :: "sha_state \<Rightarrow> w32 list \<Rightarrow> sha_state" where
  "compress s block = add_state s (fold sha_round (zip K256 (schedule 48 block)) s)"

fun blocks :: "nat \<Rightarrow> w32 list \<Rightarrow> w32 list list" where
  "blocks 0 ws = []"
| "blocks (Suc n) ws = take 16 ws # blocks n (drop 16 ws)"

definition sha256 :: "byte list \<Rightarrow> sha_state" where
  "sha256 m =
     (let ws = be_words (sha_pad m)
      in fold (\<lambda>blk s. compress s blk) (blocks (length ws div 16) ws) H256)"

definition hex32 :: "w32 \<Rightarrow> string" where
  "hex32 w = map (\<lambda>i. hex_digit (unat (drop_bit (4 * (7 - i)) w))) [0..<8]"

fun hexdigest :: "sha_state \<Rightarrow> string" where
  "hexdigest (a, b, c, d, e, f, g, h) = concat (map hex32 [a, b, c, d, e, f, g, h])"

text \<open>\<open>payload.encode("utf-8")\<close> of an ASCII string: one byte per character.\<close>

definition encode_utf8 :: "string \<Rightarrow> byte list" where
  "encode_utf8 s = map (\<lambda>c. of_nat (of_char c)) s"

section \<open>Canonical hashing of run specifications (\<open>core.py\<close>)\<close>

text \<open>
  The values a run specification is built from, before normalisation: in addition to the
  JSON values, tuples, sets (the list is the iteration order), \<open>pathlib.Path\<close> objects and
  dicts whose keys may be strings or integers.  Byte strings, floats and numpy values are
  not modelled.
\<close>

datatype pykey = KStr string | KInt int

datatype pyval =
    PNone | PBool bool | PInt int | PStr string | PPath string
  | PList "pyval list" | PTuple "pyval list" | PSet "pyval list"
  | PDict "(pykey \<times> pyval) list"

text \<open>\<open>str(key)\<close>\<close>

fun str_key :: "pykey \<Rightarrow> string" where
  "str_key (KStr s) = s"
| "str_key (KInt i) = str_int i"

fun normalize_py :: "pyval \<Rightarrow> error + json" where
  "normalize_py (PDict kvs) =
     (case sequence_err (map (\<lambda>kv. case normalize_py (snd kv) of
                                       Inl e \<Rightarrow> Inl e
                                     | Inr j \<Rightarrow> Inr (str_key (fst kv), j)) kvs) of
        Inl e \<Rightarrow> Inl e
      | Inr items \<Rightarrow> Inr (JDict (dict_of items)))"
| "normalize_py (PList xs) =
     (case sequence_err (map normalize_py xs) of Inl e \<Rightarrow> Inl e | Inr js \<Rightarrow> Inr (JList js))"
| "normalize_py (PTuple xs) =
     (case sequence_err (map normalize_py xs) of Inl e \<Rightarrow> Inl e | Inr js \<Rightarrow> Inr (JList js))"
| "normalize_py (PSet xs) =
     (case sequence_err (map normalize_py xs) of
        Inl e \<Rightarrow> Inl e
      | Inr js \<Rightarrow> (case sorted_py id js of Inl e \<Rightarrow> Inl e | Inr s \<Rightarrow> Inr (JList s)))"
| "normalize_py (PPath s) = Inr (JStr s)"
| "normalize_py (PStr s) = Inr (JStr s)"
| "normalize_py (PInt i) = Inr (JInt i)"
| "normalize_py (PBool b) = Inr (JBool b)"
| "normalize_py PNone = Inr JNull"


definition hash_spec :: "pyval \<Rightarrow> error + string" where
  "hash_spec spec =
     (case normalize_py spec of
        Inl e \<Rightarrow> Inl e
      | Inr normalized \<Rightarrow> Inr (hexdigest (sha256 (encode_utf8 (dumps normalized)))))"

section \<open>The store's run identifier (\<open>store.py\<close>)\<close>

definition build_spec :: "pyval \<Rightarrow> int \<Rightarrow> string option \<Rightarrow> pyval \<Rightarrow> pyval" where
  "build_spec params seed code_version env =
     PDict [(KStr ''code_version'', (case code_version of None \<Rightarrow> PNone | Some c \<Rightarrow> PStr c)),
            (KStr ''env'', env),
            (KStr ''params'', params),
            (KStr ''seed'', PInt seed)]"

text \<open>\<open>collect_env\<close> reads the interpreter and the platform; its result is the parameter
  \<open>collected\<close>, used when no environment is passed.\<close>

definition compute_run_id ::
  "pyval \<Rightarrow> pyval \<Rightarrow> int \<Rightarrow> string option \<Rightarrow> pyval option \<Rightarrow> error + string" where
  "compute_run_id collected params seed code_version env =
     hash_spec (build_spec params seed code_version
                  (case env of None \<Rightarrow> collected | Some e \<Rightarrow> e))"

section \<open>Sweep enumeration (\<open>iterations.py\<close>)\<close>

text \<open>The grid is a document loaded from a JSON or YAML file: a dict with string keys.\<close>

text \<open>Truth value of an object, as \<open>if x\<close> and \<open>x or y\<close> test it.\<close>

fun truthy :: "json \<Rightarrow> bool" where
  "truthy JNull = False"
| "truthy (JBool b) = b"
| "truthy (JInt i) = (i \<noteq> 0)"
| "truthy (JStr s) = (s \<noteq> [])"
| "truthy (JList xs) = (xs \<noteq> [])"
| "truthy (JDict d) = (d \<noteq> [])"

text \<open>\<open>list(x)\<close>: the elements of a list, the keys of a dict, the characters of a string;
  other values are not iterable.\<close>

fun list_py :: "json \<Rightarrow> error + json list" where
  "list_py (JList xs) = Inr xs"
| "list_py (JDict d) = Inr (map (\<lambda>kv. JStr (fst kv)) d)"
| "list_py (JStr s) = Inr (map (\<lambda>c. JStr [c]) s)"
| "list_py _ = Inl TypeError"

text \<open>\<open>itertools.product(*pools)\<close>, as its documentation defines it:
  \<open>result = [[]]\<close>, then for each pool \<open>result = [x + [y] for x in result for y in pool]\<close>.\<close>

definition product_py :: "'a list list \<Rightarrow> 'a list list" where
  "product_py pools =
     fold (\<lambda>pool result. concat (map (\<lambda>x. map (\<lambda>y. x @ [y]) pool) result)) pools [[]]"

fun expand_grid :: "json \<Rightarrow> error + json list" where
  "expand_grid (JDict params_grid) =
     (let keys = map fst params_grid in
      case sequence_err (map (\<lambda>key. case dict_get params_grid key of
                                         None \<Rightarrow> Inl KeyError
                                       | Some v \<Rightarrow> list_py v) keys) of
        Inl e \<Rightarrow> Inl e
      | Inr values \<Rightarrow> Inr (map (\<lambda>combo. JDict (dict_of (zip keys combo))) (product_py values)))"
| "expand_grid _ = Inl AttributeError"

text \<open>\<open>iter_sweep\<close> is a generator; the model returns the list of the pairs it yields, or
  the exception raised before the first of them.\<close>

definition iter_sweep :: "(string \<times> json) list \<Rightarrow> error + (json \<times> json) list" where
  "iter_sweep grid =
     (let params_grid = (case dict_get grid ''params'' of None \<Rightarrow> JDict [] | Some p \<Rightarrow> p) in
      case (if truthy params_grid then expand_grid params_grid else Inr [JDict []]) of
        Inl e \<Rightarrow> Inl e
      | Inr combinations \<Rightarrow>
          (case (case dict_get grid ''seeds'' of
                   Some ss \<Rightarrow> list_py ss
                 | None \<Rightarrow> (case dict_get grid ''seed'' of
                              Some sd \<Rightarrow> Inr [sd]
                            | None \<Rightarrow> Inr [JInt 0])) of
             Inl e \<Rightarrow> Inl e
           | Inr seeds \<Rightarrow>
               Inr (concat (map (\<lambda>params. map (\<lambda>seed. (params, seed)) seeds) combinations))))"

text \<open>The order the specification asks for, written as nested loops: the first declared
  axis is the outermost loop, so later axes vary fastest.\<close>

fun nested_loops :: "(string \<times> json list) list \<Rightarrow> (string \<times> json) list list" where
  "nested_loops [] = [[]]"
| "nested_loops (axis # axes) =
     concat (map (\<lambda>v. map (\<lambda>rest. (fst axis, v) # rest) (nested_loops axes)) (snd axis))"

section \<open>The run store (\<open>store.py\<close>)\<close>

subsection \<open>Files\<close>

text \<open>
  A JSON file is absent, present but not parseable, or holds a document.  \<open>_write_json\<close>
  dumps with \<open>sort_keys=True\<close>, so the document read back has the keys of every dict in
  sorted order.
\<close>

datatype json_file = Missing | Unreadable | Content json

fun sort_keys_json :: "json \<Rightarrow> json" where
  "sort_keys_json (JList xs) = JList (map sort_keys_json xs)"
| "sort_keys_json (JDict kvs) =
     JDict (sort_key fst (map (\<lambda>kv. (fst kv, sort_keys_json (snd kv))) kvs))"
| "sort_keys_json j = j"

definition write_json :: "json \<Rightarrow> json_file" where
  "write_json payload = Content (sort_keys_json payload)"

fun read_json :: "json_file \<Rightarrow> error + json" where
  "read_json Missing = Inl FileNotFoundError"
| "read_json Unreadable = Inl JSONDecodeError"
| "read_json (Content j) = Inr j"

text \<open>
  A run directory holds \<open>metadata.json\<close> and the array files, by name; \<open>'b\<close> is what an
  array library leaves on disk.  The entries of \<open>runs/\<close> are run directories or other
  files.  Run identifiers are taken to be plain file names.
\<close>

record 'b run_dir =
  metadata_json :: json_file
  files :: "string \<rightharpoonup> 'b"

datatype 'b node = File | Dir "'b run_dir"

record 'b store =
  manifest_json :: json_file
  runs_dir :: "(string \<times> 'b node) list"

subsection \<open>The array libraries\<close>

text \<open>
  numpy, zarr and h5py are outside the repository.  Writing an artifact set \<open>'a\<close> to a
  path is a function of the arrays and of what the path held, giving what the path holds
  afterwards and the exception raised, if any; reading is a function of what the path
  holds.  zarr and h5py are optional: \<open>None\<close> when the import fails.
\<close>

record ('a, 'b) codec =
  write_arrays :: "'a \<Rightarrow> 'b option \<Rightarrow> 'b option \<times> error option"
  read_arrays :: "'b option \<Rightarrow> error + 'a"

record ('a, 'b) libs =
  numpy :: "('a, 'b) codec"
  zarr :: "('a, 'b) codec option"
  h5py :: "('a, 'b) codec option"

definition write_at ::
  "('a, 'b) codec \<Rightarrow> 'a \<Rightarrow> 'b option \<Rightarrow> string \<Rightarrow> 'b run_dir \<Rightarrow> 'b run_dir \<times> (error + string)" where
  "write_at c arrays old name rd =
     (let res = write_arrays c arrays old in
      (rd\<lparr>files := (files rd)(name := fst res)\<rparr>,
       case snd res of Some e \<Rightarrow> Inl e | None \<Rightarrow> Inr name))"

definition save_arrays ::
  "('a, 'b) libs \<Rightarrow> string \<Rightarrow> 'a \<Rightarrow> 'b run_dir \<Rightarrow> 'b run_dir \<times> (error + string)" where
  "save_arrays L arrays_format arrays rd =
     (if arrays_format = ''npz'' then
        write_at (numpy L) arrays (files rd ''arrays.npz'') ''arrays.npz'' rd
      else if arrays_format = ''zarr'' then
        (case zarr L of
           None \<Rightarrow> (rd, Inl RuntimeError)
         | Some z \<Rightarrow> write_at z arrays None ''arrays.zarr'' rd)
      else if arrays_format = ''hdf5'' then
        (case h5py L of
           None \<Rightarrow> (rd, Inl RuntimeError)
         | Some h \<Rightarrow> write_at h arrays (files rd ''arrays.h5'') ''arrays.h5'' rd)
      else (rd, Inl ValueError))"

definition load_arrays :: "('a, 'b) libs \<Rightarrow> string \<Rightarrow> string \<Rightarrow> 'b run_dir \<Rightarrow> error + 'a" where
  "load_arrays L arrays_format arrays_path rd =
     (if arrays_format = ''npz'' then read_arrays (numpy L) (files rd arrays_path)
      else if arrays_format = ''zarr'' then
        (case zarr L of
           None \<Rightarrow> Inl RuntimeError
         | Some z \<Rightarrow> read_arrays z (files rd arrays_path))
      else if arrays_format = ''hdf5'' then
        (case h5py L of
           None \<Rightarrow> Inl RuntimeError
         | Some h \<Rightarrow> read_arrays h (files rd arrays_path))
      else Inl ValueError)"

subsection \<open>Saving and the manifest\<close>

text \<open>\<open>run_dir.mkdir(parents=True, exist_ok=True)\<close>\<close>

definition empty_run_dir :: "'b run_dir" where
  "empty_run_dir = \<lparr>metadata_json = Missing, files = Map.empty\<rparr>"

definition mkdir :: "'b store \<Rightarrow> string \<Rightarrow> error + 'b store" where
  "mkdir s run_id =
     (case dict_get (runs_dir s) run_id of
        None \<Rightarrow> Inr (s\<lparr>runs_dir := runs_dir s @ [(run_id, Dir empty_run_dir)]\<rparr>)
      | Some (Dir rd) \<Rightarrow> Inr s
      | Some File \<Rightarrow> Inl FileExistsError)"

definition put_run_dir :: "'b store \<Rightarrow> string \<Rightarrow> 'b run_dir \<Rightarrow> 'b store" where
  "put_run_dir s run_id rd = s\<lparr>runs_dir := dict_set (runs_dir s) run_id (Dir rd)\<rparr>"

definition load_manifest :: "'b store \<Rightarrow> error + json" where
  "load_manifest s =
     (case manifest_json s of
        Missing \<Rightarrow> Inr (JDict [(''runs'', JDict [])])
      | f \<Rightarrow> read_json f)"

text \<open>\<open>manifest["runs"]\<close>: subscripting anything but a dict with a string raises
  \<open>TypeError\<close>, a dict without the key raises \<open>KeyError\<close>.\<close>

fun subscript :: "json \<Rightarrow> string \<Rightarrow> error + json" where
  "subscript (JDict d) k = (case dict_get d k of None \<Rightarrow> Inl KeyError | Some v \<Rightarrow> Inr v)"
| "subscript _ k = Inl TypeError"

definition update_manifest ::
  "'b store \<Rightarrow> string \<Rightarrow> (string \<times> json) list \<Rightarrow> 'b store \<times> (error + unit)" where
  "update_manifest s run_id metadata =
     (case load_manifest s of
        Inl e \<Rightarrow> (s, Inl e)
      | Inr manifest \<Rightarrow>
          (let tags = (case dict_get metadata ''tags'' of
                         None \<Rightarrow> JList []
                       | Some t \<Rightarrow> if truthy t then t else JList []);
               entry = JDict [(''timestamp'', (case dict_get metadata ''timestamp'' of
                                                 None \<Rightarrow> JNull | Some t \<Rightarrow> t)),
                              (''tags'', tags)]
           in case subscript manifest ''runs'' of
                Inl e \<Rightarrow> (s, Inl e)
              | Inr (JDict rs) \<Rightarrow>
                  (case manifest of
                     JDict m \<Rightarrow>
                       (s\<lparr>manifest_json :=
                            write_json (JDict (dict_set m ''runs''
                                                 (JDict (dict_set rs run_id entry))))\<rparr>,
                        Inr ())
                   | _ \<Rightarrow> (s, Inl TypeError))
              | Inr _ \<Rightarrow> (s, Inl TypeError)))"

definition save ::
  "('a, 'b) libs \<Rightarrow> 'b store \<Rightarrow> string \<Rightarrow> 'a \<Rightarrow> (string \<times> json) list \<Rightarrow> string
     \<Rightarrow> 'b store \<times> (error + string)" where
  "save L s run_id arrays metadata arrays_format =
     (case mkdir s run_id of
        Inl e \<Rightarrow> (s, Inl e)
      | Inr s1 \<Rightarrow>
          (case dict_get (runs_dir s1) run_id of
             Some (Dir rd) \<Rightarrow>
               (let saved = save_arrays L arrays_format arrays rd;
                    s2 = put_run_dir s1 run_id (fst saved)
                in case snd saved of
                     Inl e \<Rightarrow> (s2, Inl e)
                   | Inr arrays_path \<Rightarrow>
                       (let metadata' =
                              dict_set (dict_set (dict_set metadata
                                ''run_id'' (JStr run_id))
                                ''arrays_format'' (JStr arrays_format))
                                ''arrays_path'' (JStr arrays_path);
                            s3 = put_run_dir s2 run_id
                                   ((fst saved)\<lparr>metadata_json := write_json (JDict metadata')\<rparr>);
                            updated = update_manifest s3 run_id metadata'
                        in case snd updated of
                             Inl e \<Rightarrow> (fst updated, Inl e)
                           | Inr u \<Rightarrow> (fst updated, Inr run_id)))
           | _ \<Rightarrow> (s1, Inl FileNotFoundError)))"

subsection \<open>Loading\<close>


subsection \<open>Listing\<close>

text \<open>\<open>{"run_id": run_id, **entry}\<close>\<close>

fun manifest_run :: "string \<times> json \<Rightarrow> error + json" where
  "manifest_run (run_id, JDict entry) = Inr (JDict (dict_of ((''run_id'', JStr run_id) # entry)))"
| "manifest_run (run_id, _) = Inl TypeError"

text \<open>\<open>item.get("timestamp", "")\<close>: the default is used only when the key is absent.\<close>

fun list_key :: "json \<Rightarrow> json" where
  "list_key (JDict item) = (case dict_get item ''timestamp'' of None \<Rightarrow> JStr [] | Some t \<Rightarrow> t)"
| "list_key _ = JStr []"

text \<open>One entry of the fallback listing; every exception of the \<open>try\<close> block gives the
  placeholder.  \<open>sorted(self.runs_dir.glob("*"))\<close> visits the entries of \<open>runs/\<close> in the
  order of their names.\<close>

definition placeholder :: "string \<Rightarrow> json" where
  "placeholder name = JDict [(''run_id'', JStr name), (''timestamp'', JNull), (''tags'', JList [])]"

definition fallback_entry :: "string \<Rightarrow> 'b run_dir \<Rightarrow> json" where
  "fallback_entry name rd =
     (case read_json (metadata_json rd) of
        Inr (JDict metadata) \<Rightarrow>
          JDict [(''run_id'', JStr name),
                 (''timestamp'', (case dict_get metadata ''timestamp'' of
                                    None \<Rightarrow> JNull | Some t \<Rightarrow> t)),
                 (''tags'', (case dict_get metadata ''tags'' of
                               None \<Rightarrow> JList [] | Some t \<Rightarrow> t))]
      | _ \<Rightarrow> placeholder name)"

fun fallback :: "(string \<times> 'b node) list \<Rightarrow> json list" where
  "fallback [] = []"
| "fallback ((name, Dir rd) # rest) = fallback_entry name rd # fallback rest"
| "fallback ((name, File) # rest) = fallback rest"

definition list_runs :: "'b store \<Rightarrow> error + json list" where
  "list_runs s =
     (case load_manifest s of
        Inl e \<Rightarrow> Inl e
      | Inr manifest \<Rightarrow>
          (case subscript manifest ''runs'' of
             Inl e \<Rightarrow> Inl e
           | Inr (JDict rs) \<Rightarrow>
               (case sequence_err (map manifest_run rs) of
                  Inl e \<Rightarrow> Inl e
                | Inr runs \<Rightarrow>
                    if runs \<noteq> [] then sorted_py list_key runs
                    else Inr (fallback (sort_key fst (runs_dir s))))
           | Inr _ \<Rightarrow> Inl AttributeError))"

subsection \<open>The latest run with a tag\<close>








subsection \<open>An instance of the libraries for examples\<close>

text \<open>
  To run the store on concrete inputs: artifact sets are lists of named integer arrays,
  a path holds the set written to it, zarr is not installed.
\<close>

type_synonym arrays = "(string \<times> int list) list"

definition example_codec :: "(arrays, arrays) codec" where
  "example_codec =
     \<lparr>write_arrays = (\<lambda>arrays old. (Some arrays, None)),
      read_arrays = (\<lambda>held. case held of None \<Rightarrow> Inl FileNotFoundError | Some a \<Rightarrow> Inr a)\<rparr>"

definition example_libs :: "(arrays, arrays) libs" where
  "example_libs = \<lparr>numpy = example_codec, zarr = None, h5py = Some example_codec\<rparr>"

definition empty_store :: "arrays store" where
  "empty_store = \<lparr>manifest_json = Missing, runs_dir = []\<rparr>"

text \<open>The entry of a run in the manifest index, if the manifest can be read and has one.\<close>

definition manifest_entry :: "'b store \<Rightarrow> string \<Rightarrow> json option" where
  "manifest_entry s run_id =
     (case load_manifest s of
        Inl e \<Rightarrow> None
      | Inr manifest \<Rightarrow>
          (case subscript manifest ''runs'' of
             Inr (JDict rs) \<Rightarrow> dict_get rs run_id
           | _ \<Rightarrow> None))"

text \<open>The names of the subdirectories of \<open>runs/\<close>.\<close>

fun subdirs :: "(string \<times> 'b node) list \<Rightarrow> string list" where
  "subdirs [] = []"
| "subdirs ((name, Dir rd) # rest) = name # subdirs rest"
| "subdirs ((name, File) # rest) = subdirs rest"



section \<open>Notions used to state the properties of the identifier\<close>

definition lowercase_hex :: "string \<Rightarrow> bool" where
  "lowercase_hex s = list_all (\<lambda>c. c \<in> set ''0123456789abcdef'') s"


text \<open>What Python can put into a set or use as a key: no list, set or dict inside.\<close>

fun hashable :: "pyval \<Rightarrow> bool" where
  "hashable (PTuple xs) = list_all hashable xs"
| "hashable (PList xs) = False"
| "hashable (PSet xs) = False"
| "hashable (PDict kvs) = False"
| "hashable x = True"

text \<open>The normalised form of a value whose normalisation does not raise.\<close>

definition normalized :: "pyval \<Rightarrow> json" where
  "normalized x = (case normalize_py x of Inl e \<Rightarrow> JNull | Inr j \<Rightarrow> j)"

text \<open>Any two of the values are ordered by \<open><\<close>, one way or the other, unless they are
  the same value; no comparison raises.\<close>

definition orderable :: "json list \<Rightarrow> bool" where
  "orderable js =
     (\<forall>x\<in>set js. \<forall>y\<in>set js.
        py_lt x y = Inr True \<or> py_lt y x = Inr True \<or> (x = y \<and> py_lt x y = Inr False))"

text \<open>
  The specifications for which the identifier is independent of the way they are
  expressed: the keys of every mapping stay distinct when coerced to strings, and the
  elements of every set are hashable and, when there are several, mutually ordered
  after normalisation.
\<close>

fun well_formed :: "pyval \<Rightarrow> bool" where
  "well_formed (PDict kvs) =
     (distinct (map (\<lambda>kv. str_key (fst kv)) kvs) \<and> list_all (\<lambda>kv. well_formed (snd kv)) kvs)"
| "well_formed (PList xs) = list_all well_formed xs"
| "well_formed (PTuple xs) = list_all well_formed xs"
| "well_formed (PSet xs) =
     (list_all hashable xs \<and> (length xs \<le> 1 \<or> orderable (map normalized xs)))"
| "well_formed x = True"

text \<open>Values without a dict inside: the normalised elements of sets.\<close>

fun ground :: "json \<Rightarrow> bool" where
  "ground (JDict d) = False"
| "ground (JList xs) = list_all ground xs"
| "ground j = True"

section \<open>Auxiliary facts about dicts and exceptions\<close>

lemma dict_of_aux:
  "distinct (map fst (acc @ kvs)) \<Longrightarrow> fold (\<lambda>(k, v) d. dict_set d k v) kvs acc = acc @ kvs"
proof (induction kvs arbitrary: acc)
  case Nil
  then show ?case by simp
next
  case (Cons kv kvs)
  obtain k v where kv: "kv = (k, v)" by (cases kv)
  from Cons.prems have "k \<notin> fst ` set acc" by (auto simp: kv)
  then have upd: "dict_set acc k v = acc @ [(k, v)]"
    by (induction acc) (auto simp: dict_set_def)
  from Cons.prems have "distinct (map fst ((acc @ [(k, v)]) @ kvs))" by (simp add: kv)
  from Cons.IH[OF this] show ?case by (simp add: kv upd)
qed

lemma dict_of_distinct: "distinct (map fst kvs) \<Longrightarrow> dict_of kvs = kvs"
  using dict_of_aux[of "[]" kvs] by (simp add: dict_of_def)

lemma sequence_err_Inr: "sequence_err (map (\<lambda>x. Inr (g x)) xs) = Inr (map g xs)"
  by (induction xs) simp_all

text \<open>Sorting the items of a dict by key keeps what each key is bound to.\<close>

lemma map_of_filter_key: "map_of xs k = map_of (filter (\<lambda>y. fst y = k) xs) k"
  by (induction xs) auto

lemma map_of_sort_key: "map_of (sort_key fst xs) k = map_of xs k"
proof -
  have "map_of (sort_key fst xs) k = map_of (filter (\<lambda>y. fst y = k) (sort_key fst xs)) k"
    by (rule map_of_filter_key)
  also have "\<dots> = map_of (filter (\<lambda>y. fst y = k) xs) k"
    by (simp only: sort_key_stable)
  also have "\<dots> = map_of xs k"
    by (rule map_of_filter_key [symmetric])
  finally show ?thesis .
qed

lemma dict_get_sorted:
  "dict_get (sort_key fst (map (\<lambda>kv. (fst kv, g (snd kv))) d)) k = map_option g (dict_get d k)"
proof -
  have "map_of (map (\<lambda>kv. (fst kv, g (snd kv))) d) k = map_option g (map_of d k)"
    by (induction d) auto
  then show ?thesis by (simp add: dict_get_def map_of_sort_key)
qed

lemma map_sort_key_values:
  "map (\<lambda>kv. (fst kv, g (snd kv))) (sort_key fst xs)
     = sort_key fst (map (\<lambda>kv. (fst kv, g (snd kv))) xs)"
proof (induction xs)
  case Nil
  then show ?case by simp
next
  case (Cons x xs)
  have ins: "map (\<lambda>kv. (fst kv, g (snd kv))) (insort_key fst x ys)
        = insort_key fst (fst x, g (snd x)) (map (\<lambda>kv. (fst kv, g (snd kv))) ys)" for ys
    by (induction ys) auto
  show ?case by (simp add: ins Cons.IH)
qed

lemma sort_key_idem: "sort_key f (sort_key f xs) = sort_key f xs"
  by (simp add: sort_key_id_if_sorted)

section \<open>Properties of the run identifier\<close>

subsection \<open>The digest\<close>

lemma hex_digit_lower: "hex_digit n \<in> set ''0123456789abcdef''"
proof -
  have "n mod 16 < length ''0123456789abcdef''" by simp
  then show ?thesis unfolding hex_digit_def by (rule nth_mem)
qed

lemma hex32_length: "length (hex32 w) = 8"
  by (simp add: hex32_def)

lemma hex32_lower: "list_all (\<lambda>c. c \<in> set ''0123456789abcdef'') (hex32 w)"
  unfolding hex32_def list_all_iff using hex_digit_lower by auto

lemma hexdigest_length: "length (hexdigest st) = 64"
  by (cases st rule: hexdigest.cases) (simp add: hex32_length)

lemma hexdigest_lower: "lowercase_hex (hexdigest st)"
  by (cases st rule: hexdigest.cases) (simp add: lowercase_hex_def hex32_lower del: set_simps)

lemma norm_ex: "normalize_py (build_spec (PDict [(KStr ''steps'', PInt 5)]) 3 None (PDict []))
    = Inr (JDict [(''code_version'', JNull), (''env'', JDict []),
                  (''params'', JDict [(''steps'', JInt 5)]), (''seed'', JInt 3)])"
  by (simp add: build_spec_def dict_of_def dict_set_def)

subsection \<open>Equality and order of normalised set elements\<close>

lemma py_eq_list_sym:
  assumes "\<And>x y. x \<in> set xs \<Longrightarrow> py_eq x y \<Longrightarrow> py_eq y x"
  shows "py_eq_list xs ys \<Longrightarrow> py_eq_list ys xs"
  using assms
proof (induction xs arbitrary: ys)
  case Nil
  then show ?case by simp
next
  case (Cons x xs)
  then show ?case by (cases ys) auto
qed

lemma py_eq_sym: "ground x \<Longrightarrow> py_eq x y \<Longrightarrow> py_eq y x"
proof (induction x arbitrary: y)
  case (JList xs)
  then obtain ys where y: "y = JList ys" by (cases y) auto
  have "py_eq_list ys xs"
  proof (rule py_eq_list_sym)
    show "py_eq_list xs ys" using JList.prems y by simp
    show "py_eq u v \<Longrightarrow> py_eq v u" if "u \<in> set xs" for u v
      using JList.IH [OF that] JList.prems(1) that by (simp add: list_all_iff)
  qed
  then show ?case by (simp add: y)
next
  case (JBool b)
  then show ?case by (cases y) (auto split: if_splits)
next
  case (JInt i)
  then show ?case by (cases y) (auto split: if_splits)
qed simp_all

lemma py_eq_ground: "ground x \<Longrightarrow> py_eq x y \<Longrightarrow> ground y"
proof (induction x arbitrary: y)
  case (JList xs)
  then obtain ys where y: "y = JList ys" by (cases y) auto
  have "py_eq_list xs ys \<Longrightarrow> list_all ground ys"
    using JList.IH JList.prems(1)
  proof (induction xs arbitrary: ys)
    case Nil
    then show ?case by simp
  next
    case (Cons a xs)
    then show ?case by (cases ys) auto
  qed
  with JList.prems y show ?case by simp
next
  case (JBool b)
  then show ?case by (cases y) auto
next
  case (JInt i)
  then show ?case by (cases y) auto
qed simp_all

lemma py_eq_list_trans:
  assumes "\<And>x y z. x \<in> set xs \<Longrightarrow> py_eq x y \<Longrightarrow> py_eq y z \<Longrightarrow> py_eq x z"
  shows "py_eq_list xs ys \<Longrightarrow> py_eq_list ys zs \<Longrightarrow> py_eq_list xs zs"
  using assms
proof (induction xs arbitrary: ys zs)
  case Nil
  then show ?case by simp
next
  case (Cons x xs)
  from Cons.prems(1) obtain y ys' where ys: "ys = y # ys'" by (cases ys) simp_all
  from Cons.prems(2) ys obtain z zs' where zs: "zs = z # zs'" by (cases zs) simp_all
  from Cons.prems(1) ys have xy: "py_eq x y" and xys: "py_eq_list xs ys'" by simp_all
  from Cons.prems(2) ys zs have yz: "py_eq y z" and yzs: "py_eq_list ys' zs'" by simp_all
  have "py_eq x z" by (rule Cons.prems(3) [OF _ xy yz]) simp
  moreover have "py_eq_list xs zs'"
  proof (rule Cons.IH [OF xys yzs])
    fix u v w assume "u \<in> set xs" "py_eq u v" "py_eq v w"
    then show "py_eq u w" by (intro Cons.prems(3) [of u v w]) simp_all
  qed
  ultimately show ?case by (simp add: zs)
qed

lemma py_eq_trans: "ground x \<Longrightarrow> py_eq x y \<Longrightarrow> py_eq y z \<Longrightarrow> py_eq x z"
proof (induction x arbitrary: y z)
  case (JList xs)
  then obtain ys where y: "y = JList ys" by (cases y) auto
  with JList.prems obtain zs where z: "z = JList zs" by (cases z) auto
  have "py_eq_list xs zs"
  proof (rule py_eq_list_trans)
    show "py_eq_list xs ys" using JList.prems y by simp
    show "py_eq_list ys zs" using JList.prems y z by simp
    show "py_eq u v \<Longrightarrow> py_eq v w \<Longrightarrow> py_eq u w" if "u \<in> set xs" for u v w
      using JList.IH [OF that] JList.prems(1) that by (simp add: list_all_iff)
  qed
  then show ?case by (simp add: z)
next
  case (JBool b)
  then show ?case by (cases y; cases z) (auto split: if_splits)
next
  case (JInt i)
  then show ?case by (cases y; cases z) (auto split: if_splits)
qed simp_all

lemma py_eq_left: "ground x \<Longrightarrow> py_eq x y \<Longrightarrow> py_eq x z = py_eq y z"
  by (meson py_eq_ground py_eq_sym py_eq_trans)

lemma py_eq_right: "ground x \<Longrightarrow> ground y \<Longrightarrow> py_eq y z \<Longrightarrow> py_eq x y = py_eq x z"
  by (meson py_eq_ground py_eq_sym py_eq_trans)

text \<open>Equal values compare alike on the left.\<close>

lemma lt_list_cong_left:
  assumes "\<And>x y z. x \<in> set xs \<Longrightarrow> ground y \<Longrightarrow> ground z \<Longrightarrow> py_eq x y \<Longrightarrow> py_lt x z = py_lt y z"
    and "list_all ground xs" "list_all ground ys" "list_all ground zs"
  shows "py_eq_list xs ys \<Longrightarrow> lt_list xs zs = lt_list ys zs"
  using assms
proof (induction xs arbitrary: ys zs)
  case Nil
  then show ?case by simp
next
  case (Cons x xs)
  from Cons.prems(1) obtain y ys' where ys: "ys = y # ys'" by (cases ys) simp_all
  from Cons.prems(1) ys have xy: "py_eq x y" and xys: "py_eq_list xs ys'" by simp_all
  show ?case
  proof (cases zs)
    case Nil
    then show ?thesis by (simp add: ys)
  next
    case (Cons z zs')
    from Cons.prems(3,4,5) ys Cons
    have g: "ground x" "ground y" "ground z" "list_all ground xs" "list_all ground ys'"
      "list_all ground zs'" by simp_all
    have e: "py_eq x z = py_eq y z" by (rule py_eq_left [OF g(1) xy])
    have l: "py_lt x z = py_lt y z" by (rule Cons.prems(2) [OF _ g(2,3) xy]) simp
    have r: "lt_list xs zs' = lt_list ys' zs'"
    proof (rule Cons.IH [OF xys _ g(4,5,6)])
      fix u v w assume "u \<in> set xs" "ground v" "ground w" "py_eq u v"
      then show "py_lt u w = py_lt v w" by (intro Cons.prems(2) [of u v w]) simp_all
    qed
    show ?thesis by (simp add: ys Cons e l r)
  qed
qed

lemma py_lt_cong_left:
  "ground x \<Longrightarrow> ground y \<Longrightarrow> ground z \<Longrightarrow> py_eq x y \<Longrightarrow> py_lt x z = py_lt y z"
proof (induction x arbitrary: y z)
  case (JList xs)
  then obtain ys where y: "y = JList ys" by (cases y) simp_all
  show ?case
  proof (cases z)
    case (JList zs)
    have "lt_list xs zs = lt_list ys zs"
    proof (rule lt_list_cong_left)
      show "py_eq_list xs ys" using JList.prems y by simp
      show "list_all ground xs" "list_all ground ys" "list_all ground zs"
        using JList.prems y JList by simp_all
      show "py_lt u w = py_lt v w"
        if "u \<in> set xs" "ground v" "ground w" "py_eq u v" for u v w
        using JList.IH [OF that(1) _ that(2,3,4)] JList.prems(1) that(1)
        by (simp add: list_all_iff)
    qed
    then show ?thesis by (simp add: y JList)
  qed (simp_all add: y)
next
  case (JBool b)
  then show ?case by (cases y; cases z) (simp_all split: if_splits)
next
  case (JInt i)
  then show ?case by (cases y; cases z) (simp_all split: if_splits)
qed simp_all

text \<open>Equal values compare alike on the right.\<close>

lemma lt_list_cong_right:
  assumes "\<And>x y z. y \<in> set ys \<Longrightarrow> ground x \<Longrightarrow> ground z \<Longrightarrow> py_eq y z \<Longrightarrow> py_lt x y = py_lt x z"
    and "list_all ground xs" "list_all ground ys" "list_all ground zs"
  shows "py_eq_list ys zs \<Longrightarrow> lt_list xs ys = lt_list xs zs"
  using assms
proof (induction ys arbitrary: xs zs)
  case Nil
  then show ?case by simp
next
  case (Cons y ys)
  from Cons.prems(1) obtain z zs' where zs: "zs = z # zs'" by (cases zs) simp_all
  from Cons.prems(1) zs have yz: "py_eq y z" and yzs: "py_eq_list ys zs'" by simp_all
  show ?case
  proof (cases xs)
    case Nil
    then show ?thesis by (simp add: zs)
  next
    case (Cons x xs')
    from Cons.prems(3,4,5) zs Cons
    have g: "ground x" "ground y" "ground z" "list_all ground xs'" "list_all ground ys"
      "list_all ground zs'" by simp_all
    have e: "py_eq x y = py_eq x z" by (rule py_eq_right [OF g(1,2) yz])
    have l: "py_lt x y = py_lt x z" by (rule Cons.prems(2) [OF _ g(1,3) yz]) simp
    have r: "lt_list xs' ys = lt_list xs' zs'"
    proof (rule Cons.IH [OF yzs _ g(4,5,6)])
      fix u v w assume "v \<in> set ys" "ground u" "ground w" "py_eq v w"
      then show "py_lt u v = py_lt u w" by (intro Cons.prems(2) [of v u w]) simp_all
    qed
    show ?thesis by (simp add: zs Cons e l r)
  qed
qed

lemma py_lt_cong_right:
  "ground x \<Longrightarrow> ground y \<Longrightarrow> ground z \<Longrightarrow> py_eq y z \<Longrightarrow> py_lt x y = py_lt x z"
proof (induction y arbitrary: x z)
  case (JList ys)
  then obtain zs where z: "z = JList zs" by (cases z) simp_all
  show ?case
  proof (cases x)
    case (JList xs)
    have "lt_list xs ys = lt_list xs zs"
    proof (rule lt_list_cong_right)
      show "py_eq_list ys zs" using JList.prems z by simp
      show "list_all ground xs" "list_all ground ys" "list_all ground zs"
        using JList.prems z JList by simp_all
      show "py_lt u v = py_lt u w"
        if "v \<in> set ys" "ground u" "ground w" "py_eq v w" for u v w
        using JList.IH [OF that(1,2) _ that(3,4)] JList.prems(2) that(1)
        by (simp add: list_all_iff)
    qed
    then show ?thesis by (simp add: z JList)
  qed (simp_all add: z)
next
  case (JBool b)
  then show ?case by (cases x; cases z) (simp_all split: if_splits)
next
  case (JInt i)
  then show ?case by (cases x; cases z) (simp_all split: if_splits)
next
  case JNull
  then show ?case by (cases x) simp_all
next
  case (JStr s)
  then show ?case by (cases x) simp_all
qed simp_all

text \<open>Equal values are not ordered.\<close>

lemma py_lt_irrefl: "ground x \<Longrightarrow> py_eq x y \<Longrightarrow> py_lt x y \<noteq> Inr True"
proof (induction x arbitrary: y)
  case (JList xs)
  then obtain ys where y: "y = JList ys" by (cases y) simp_all
  have "py_eq_list xs ys \<Longrightarrow> lt_list xs ys \<noteq> Inr True"
    using JList.IH JList.prems(1)
  proof (induction xs arbitrary: ys)
    case Nil
    then show ?case by simp
  next
    case (Cons a xs)
    from Cons.prems(1) obtain b ys' where ys: "ys = b # ys'" by (cases ys) simp_all
    from Cons.prems(1) ys have ab: "py_eq a b" and r: "py_eq_list xs ys'" by simp_all
    have "lt_list xs ys' \<noteq> Inr True"
      using Cons.prems(2,3) by (intro Cons.IH [OF r]) simp_all
    then show ?case by (simp add: ys ab)
  qed
  with JList.prems y show ?case by simp
next
  case (JBool b)
  then show ?case by (cases y) (simp_all split: if_splits)
next
  case (JInt i)
  then show ?case by (cases y) (simp_all split: if_splits)
qed simp_all

text \<open>The order is asymmetric.\<close>

lemma lt_list_asym:
  assumes "\<And>x y. x \<in> set xs \<Longrightarrow> ground y \<Longrightarrow> py_lt x y = Inr True \<Longrightarrow> py_lt y x = Inr False"
    and "list_all ground xs" "list_all ground ys"
  shows "lt_list xs ys = Inr True \<Longrightarrow> lt_list ys xs = Inr False"
  using assms
proof (induction xs arbitrary: ys)
  case Nil
  then show ?case by (cases ys) simp_all
next
  case (Cons x xs)
  from Cons.prems(1) obtain y ys' where ys: "ys = y # ys'" by (cases ys) simp_all
  from Cons.prems(3,4) ys have g: "ground x" "ground y" "list_all ground xs" "list_all ground ys'"
    by simp_all
  show ?case
  proof (cases "py_eq x y")
    case True
    have yx: "py_eq y x" by (rule py_eq_sym [OF g(1) True])
    from Cons.prems(1) ys True have "lt_list xs ys' = Inr True" by simp
    then have "lt_list ys' xs = Inr False"
    proof (rule Cons.IH [OF _ _ g(3,4)])
      fix u v assume "u \<in> set xs" "ground v" "py_lt u v = Inr True"
      then show "py_lt v u = Inr False" by (intro Cons.prems(2) [of u v]) simp_all
    qed
    then show ?thesis by (simp add: ys yx)
  next
    case False
    then have nyx: "\<not> py_eq y x" using g py_eq_sym by blast
    from Cons.prems(1) ys False have lxy: "py_lt x y = Inr True" by simp
    have "py_lt y x = Inr False" by (rule Cons.prems(2) [OF _ g(2) lxy]) simp
    then show ?thesis by (simp add: ys nyx)
  qed
qed

lemma py_lt_asym: "ground x \<Longrightarrow> ground y \<Longrightarrow> py_lt x y = Inr True \<Longrightarrow> py_lt y x = Inr False"
proof (induction x arbitrary: y)
  case (JList xs)
  then obtain ys where y: "y = JList ys" by (cases y) simp_all
  have "lt_list ys xs = Inr False"
  proof (rule lt_list_asym)
    show "lt_list xs ys = Inr True" using JList.prems y by simp
    show "list_all ground xs" "list_all ground ys" using JList.prems y by simp_all
    show "py_lt v u = Inr False" if "u \<in> set xs" "ground v" "py_lt u v = Inr True" for u v
      using JList.IH [OF that(1) _ that(2,3)] JList.prems(1) that(1) by (simp add: list_all_iff)
  qed
  then show ?case by (simp add: y)
next
  case (JBool b)
  then show ?case by (cases y) (simp_all split: if_splits)
next
  case (JInt i)
  then show ?case by (cases y) (simp_all split: if_splits)
next
  case (JStr s)
  then show ?case by (cases y) (simp_all add: less_not_sym)
qed simp_all

text \<open>The order is transitive.\<close>

lemma lt_list_trans:
  assumes "\<And>x y z. x \<in> set xs \<Longrightarrow> ground y \<Longrightarrow> ground z
              \<Longrightarrow> py_lt x y = Inr True \<Longrightarrow> py_lt y z = Inr True \<Longrightarrow> py_lt x z = Inr True"
    and "list_all ground xs" "list_all ground ys" "list_all ground zs"
  shows "lt_list xs ys = Inr True \<Longrightarrow> lt_list ys zs = Inr True \<Longrightarrow> lt_list xs zs = Inr True"
  using assms
proof (induction xs arbitrary: ys zs)
  case Nil
  from Nil.prems(1,2) show ?case by (cases ys; cases zs) simp_all
next
  case (Cons x xs)
  from Cons.prems(1) obtain y ys' where ys: "ys = y # ys'" by (cases ys) simp_all
  from Cons.prems(2) ys obtain z zs' where zs: "zs = z # zs'" by (cases zs) simp_all
  from Cons.prems(4,5,6) ys zs
  have g: "ground x" "ground y" "ground z"
    "list_all ground xs" "list_all ground ys'" "list_all ground zs'"
    by simp_all
  have step: "py_lt u w = Inr True"
    if "u \<in> set (x # xs)" "ground v" "ground w" "py_lt u v = Inr True" "py_lt v w = Inr True"
    for u v w
    using that by (rule Cons.prems(3))
  show ?case
  proof (cases "py_eq x y")
    case xy: True
    from Cons.prems(1) ys xy have t1: "lt_list xs ys' = Inr True" by simp
    show ?thesis
    proof (cases "py_eq y z")
      case yz: True
      from Cons.prems(2) ys zs yz have t2: "lt_list ys' zs' = Inr True" by simp
      have xz: "py_eq x z" using g(1) xy yz by (rule py_eq_trans)
      have "lt_list xs zs' = Inr True"
      proof (rule Cons.IH [OF t1 t2 _ g(4,5,6)])
        fix u v w
        assume "u \<in> set xs" "ground v" "ground w" "py_lt u v = Inr True" "py_lt v w = Inr True"
        then show "py_lt u w = Inr True" by (intro step [of u v w]) simp_all
      qed
      then show ?thesis by (simp add: zs xz)
    next
      case nyz: False
      from Cons.prems(2) ys zs nyz have "py_lt y z = Inr True" by simp
      then have "py_lt x z = Inr True"
        using py_lt_cong_left [OF g(1,2,3) xy] by simp
      moreover have "\<not> py_eq x z" using nyz py_eq_left [OF g(1) xy] by simp
      ultimately show ?thesis by (simp add: zs)
    qed
  next
    case nxy: False
    from Cons.prems(1) ys nxy have lxy: "py_lt x y = Inr True" by simp
    show ?thesis
    proof (cases "py_eq y z")
      case yz: True
      have "py_lt x z = Inr True" using lxy py_lt_cong_right [OF g(1,2,3) yz] by simp
      moreover have "\<not> py_eq x z" using nxy py_eq_right [OF g(1,2) yz] by simp
      ultimately show ?thesis by (simp add: zs)
    next
      case nyz: False
      from Cons.prems(2) ys zs nyz have lyz: "py_lt y z = Inr True" by simp
      have lxz: "py_lt x z = Inr True" by (rule step [OF _ g(2,3) lxy lyz]) simp
      have "\<not> py_eq x z" using py_lt_irrefl [OF g(1)] lxz by blast
      with lxz show ?thesis by (simp add: zs)
    qed
  qed
qed

lemma py_lt_trans:
  "ground x \<Longrightarrow> ground y \<Longrightarrow> ground z
     \<Longrightarrow> py_lt x y = Inr True \<Longrightarrow> py_lt y z = Inr True \<Longrightarrow> py_lt x z = Inr True"
proof (induction x arbitrary: y z)
  case (JList xs)
  then obtain ys where y: "y = JList ys" by (cases y) simp_all
  with JList.prems obtain zs where z: "z = JList zs" by (cases z) simp_all
  have "lt_list xs zs = Inr True"
  proof (rule lt_list_trans)
    show "lt_list xs ys = Inr True" "lt_list ys zs = Inr True" using JList.prems y z by simp_all
    show "list_all ground xs" "list_all ground ys" "list_all ground zs"
      using JList.prems y z by simp_all
    show "py_lt u w = Inr True"
      if "u \<in> set xs" "ground v" "ground w" "py_lt u v = Inr True" "py_lt v w = Inr True"
      for u v w
      using JList.IH [OF that(1) _ that(2,3,4,5)] JList.prems(1) that(1)
      by (simp add: list_all_iff)
  qed
  then show ?case by (simp add: z)
next
  case (JBool b)
  then show ?case by (cases y; cases z) (simp_all split: if_splits)
next
  case (JInt i)
  then show ?case by (cases y; cases z) (simp_all split: if_splits)
next
  case (JStr s)
  then show ?case by (cases y; cases z) auto
qed simp_all

subsection \<open>Sorting a set does not depend on its iteration order\<close>

lemma orderable_subset: "orderable js \<Longrightarrow> set ks \<subseteq> set js \<Longrightarrow> orderable ks"
  unfolding orderable_def by blast

lemma orderable_cases:
  assumes "orderable js" "x \<in> set js" "y \<in> set js"
  obtains "py_lt x y = Inr True" | "py_lt y x = Inr True" | "x = y" "py_lt x y = Inr False"
  using assms unfolding orderable_def by blast

text \<open>Among orderable ground values every comparison returns, and "not less" is
  transitive.\<close>

lemma py_lt_total:
  assumes "orderable js" "list_all ground js" "x \<in> set js" "y \<in> set js"
  shows "py_lt y x = Inr True \<or> py_lt y x = Inr False"
proof (rule orderable_cases [OF assms(1,3,4)])
  assume "py_lt x y = Inr True"
  moreover from assms have "ground x" "ground y" by (simp_all add: list_all_iff)
  ultimately show ?thesis by (simp add: py_lt_asym)
qed simp_all

lemma not_less_trans:
  assumes o: "orderable js" and g: "list_all ground js"
    and m: "a \<in> set js" "b \<in> set js" "c \<in> set js"
    and ab: "py_lt b a = Inr False" and bc: "py_lt c b = Inr False"
  shows "py_lt c a = Inr False"
proof (rule orderable_cases [OF o m(3) m(1)])
  from g m have gr: "ground a" "ground b" "ground c" by (simp_all add: list_all_iff)
  assume ca: "py_lt c a = Inr True"
  have "py_lt a b = Inr True \<or> a = b"
    by (rule orderable_cases [OF o m(1,2)]) (use ab in simp_all)
  moreover have "py_lt b c = Inr True \<or> b = c"
    by (rule orderable_cases [OF o m(2,3)]) (use bc in simp_all)
  ultimately consider "a = b" | "b = c" | "py_lt a b = Inr True" "py_lt b c = Inr True"
    by blast
  then show ?thesis
  proof cases
    case 1
    with ca bc show ?thesis by simp
  next
    case 2
    with ca ab show ?thesis by simp
  next
    case 3
    then have "py_lt a c = Inr True" using gr by (intro py_lt_trans [of a b c])
    then show ?thesis using gr by (simp add: py_lt_asym)
  qed
next
  assume "py_lt a c = Inr True"
  moreover from g m have "ground a" "ground c" by (simp_all add: list_all_iff)
  ultimately show ?thesis by (simp add: py_lt_asym)
qed simp_all

lemma insort_py_ok:
  assumes "orderable js" "list_all ground js" "x \<in> set js" "set ys \<subseteq> set js"
    and "sorted_wrt (\<lambda>a b. py_lt b a = Inr False) ys"
  shows "\<exists>r. insort_py (\<lambda>v. v) x ys = Inr r \<and> mset r = mset (x # ys)
               \<and> sorted_wrt (\<lambda>a b. py_lt b a = Inr False) r"
  using assms(4,5)
proof (induction ys)
  case Nil
  then show ?case by simp
next
  case (Cons y ys)
  from Cons.prems have y: "y \<in> set js" and ys: "set ys \<subseteq> set js"
    and s: "sorted_wrt (\<lambda>a b. py_lt b a = Inr False) ys"
    and yb: "\<forall>b\<in>set ys. py_lt b y = Inr False"
    by simp_all
  from py_lt_total [OF assms(1,2) assms(3) y]
  show ?case
  proof
    assume lt: "py_lt y x = Inr True"
    from Cons.IH [OF ys s] obtain r where r: "insort_py (\<lambda>v. v) x ys = Inr r"
      "mset r = mset (x # ys)" "sorted_wrt (\<lambda>a b. py_lt b a = Inr False) r"
      by blast
    from assms(2,3) y have "ground x" "ground y" by (simp_all add: list_all_iff)
    with lt have xy: "py_lt x y = Inr False" by (simp add: py_lt_asym)
    have "set r = insert x (set ys)" using r(2) by (metis mset_eq_setD list.simps(15))
    with xy yb have "\<forall>b\<in>set r. py_lt b y = Inr False" by simp
    with r lt show ?thesis by simp
  next
    assume nlt: "py_lt y x = Inr False"
    have "\<forall>b\<in>set ys. py_lt b x = Inr False"
    proof
      fix b assume b: "b \<in> set ys"
      with ys have bj: "b \<in> set js" by blast
      from yb b have "py_lt b y = Inr False" by simp
      with nlt show "py_lt b x = Inr False"
        using not_less_trans [OF assms(1,2) assms(3) y bj] by simp
    qed
    with nlt s yb show ?thesis by simp
  qed
qed

lemma sorted_py_ok:
  assumes "orderable js" "list_all ground js"
  shows "set ks \<subseteq> set js \<Longrightarrow>
         \<exists>r. sorted_py (\<lambda>v. v) ks = Inr r \<and> mset r = mset ks
             \<and> sorted_wrt (\<lambda>a b. py_lt b a = Inr False) r"
proof (induction ks)
  case Nil
  then show ?case by simp
next
  case (Cons k ks)
  then obtain s where s: "sorted_py (\<lambda>v. v) ks = Inr s" "mset s = mset ks"
    "sorted_wrt (\<lambda>a b. py_lt b a = Inr False) s"
    by auto
  from s(2) have "set s = set ks" by (rule mset_eq_setD)
  with Cons.prems have "k \<in> set js" "set s \<subseteq> set js" by simp_all
  from insort_py_ok [OF assms this s(3)] s show ?case by auto
qed

lemma sorted_wrt_unique:
  assumes "orderable js"
  shows "set r \<subseteq> set js \<Longrightarrow> mset r = mset r'
         \<Longrightarrow> sorted_wrt (\<lambda>a b. py_lt b a = Inr False) r
         \<Longrightarrow> sorted_wrt (\<lambda>a b. py_lt b a = Inr False) r' \<Longrightarrow> r = r'"
proof (induction r arbitrary: r')
  case Nil
  then show ?case by simp
next
  case (Cons x xs)
  from Cons.prems(2) obtain y ys where r': "r' = y # ys" by (cases r') auto
  have sets: "set (x # xs) = set (y # ys)"
    using Cons.prems(2) r' by (metis mset_eq_setD)
  have "x = y"
  proof (rule ccontr)
    assume ne: "x \<noteq> y"
    with sets have "y \<in> set xs" "x \<in> set ys" by auto
    with Cons.prems(3,4) r' have f: "py_lt y x = Inr False" "py_lt x y = Inr False" by auto
    from sets Cons.prems(1) have m: "x \<in> set js" "y \<in> set js" by auto
    show False by (rule orderable_cases [OF assms m]) (use f ne in simp_all)
  qed
  moreover from this Cons.prems(2) r' have "mset xs = mset ys" by simp
  then have "xs = ys"
    using Cons.prems(1,3,4) r' by (intro Cons.IH) simp_all
  ultimately show ?case by (simp add: r')
qed

lemma sorted_py_perm:
  assumes "orderable js" "list_all ground js" "mset ks = mset js"
  shows "sorted_py (\<lambda>v. v) ks = sorted_py (\<lambda>v. v) js"
    and "\<exists>r. sorted_py (\<lambda>v. v) js = Inr r"
proof -
  from assms(3) have sets: "set ks = set js" by (rule mset_eq_setD)
  from sorted_py_ok [OF assms(1,2), of js] obtain r where r: "sorted_py (\<lambda>v. v) js = Inr r"
    "mset r = mset js" "sorted_wrt (\<lambda>a b. py_lt b a = Inr False) r"
    by auto
  from sorted_py_ok [OF assms(1,2), of ks] sets obtain r' where r': "sorted_py (\<lambda>v. v) ks = Inr r'"
    "mset r' = mset ks" "sorted_wrt (\<lambda>a b. py_lt b a = Inr False) r'"
    by auto
  have "set r \<subseteq> set js" using r(2) by (metis mset_eq_setD subset_refl)
  moreover have "mset r = mset r'" using r(2) r'(2) assms(3) by simp
  ultimately have "r = r'" using r(3) r'(3) by (rule sorted_wrt_unique [OF assms(1)])
  with r r' show "sorted_py (\<lambda>v. v) ks = sorted_py (\<lambda>v. v) js" by simp
  from r show "\<exists>r. sorted_py (\<lambda>v. v) js = Inr r" by blast
qed

subsection \<open>Normal forms\<close>

lemma normalize_Inr: "normalize_py a = Inr j \<Longrightarrow> normalize_py a = Inr (normalized a)"
  by (simp add: normalized_def)

lemma sequence_err_all:
  "(\<And>x. x \<in> set xs \<Longrightarrow> f x = Inr (g x)) \<Longrightarrow> sequence_err (map f xs) = Inr (map g xs)"
  by (induction xs) simp_all

lemma hashable_normalize:
  "hashable x \<Longrightarrow> normalize_py x = Inr (normalized x) \<and> ground (normalized x)"
proof (induction x rule: hashable.induct)
  case (1 xs)
  then have el: "normalize_py x = Inr (normalized x)" "ground (normalized x)"
    if "x \<in> set xs" for x
    using that by (simp_all add: list_all_iff)
  then have "sequence_err (map normalize_py xs) = Inr (map normalized xs)"
    by (intro sequence_err_all) simp
  then have n: "normalize_py (PTuple xs) = Inr (JList (map normalized xs))" by simp
  then have "normalized (PTuple xs) = JList (map normalized xs)" by (simp add: normalized_def)
  with n el(2) show ?case by (simp add: list_all_iff)
qed (simp_all add: normalized_def)

lemma hashable_all:
  assumes "list_all hashable xs"
  shows "sequence_err (map normalize_py xs) = Inr (map normalized xs)"
    and "list_all ground (map normalized xs)"
  using assms hashable_normalize
  by (auto simp: list_all_iff intro!: sequence_err_all)

lemma nf_set:
  assumes "well_formed (PSet xs)"
  shows "\<exists>r. sorted_py (\<lambda>v. v) (map normalized xs) = Inr r
            \<and> normalize_py (PSet xs) = Inr (JList r)"
proof -
  from assms have h: "list_all hashable xs" by simp
  have "\<exists>r. sorted_py (\<lambda>v. v) (map normalized xs) = Inr r"
  proof (cases "length xs \<le> 1")
    case True
    then consider "xs = []" | x where "xs = [x]"
      by (cases xs) (auto simp: length_Suc_conv)
    then show ?thesis by cases simp_all
  next
    case False
    with assms have "orderable (map normalized xs)" by simp
    then show ?thesis
      by (rule sorted_py_perm(2) [OF _ hashable_all(2) [OF h] refl])
  qed
  then obtain r where r: "sorted_py (\<lambda>v. v) (map normalized xs) = Inr r" by blast
  then have "normalize_py (PSet xs) = Inr (JList r)"
    by (simp add: hashable_all(1) [OF h] id_def)
  with r show ?thesis by blast
qed

lemma dict_items:
  assumes "\<And>kv. kv \<in> set kvs \<Longrightarrow> normalize_py (snd kv) = Inr (normalized (snd kv))"
  shows "sequence_err (map (\<lambda>kv. case normalize_py (snd kv) of
                                       Inl e \<Rightarrow> Inl e
                                     | Inr j \<Rightarrow> Inr (str_key (fst kv), j)) kvs)
           = Inr (map (\<lambda>kv. (str_key (fst kv), normalized (snd kv))) kvs)"
  by (rule sequence_err_all) (simp add: assms)

lemma wf_normalize: "well_formed a \<Longrightarrow> normalize_py a = Inr (normalized a)"
proof (induction a rule: well_formed.induct)
  case (1 kvs)
  then have "normalize_py (snd kv) = Inr (normalized (snd kv))" if "kv \<in> set kvs" for kv
    using that by (simp add: list_all_iff)
  then have "\<exists>j. normalize_py (PDict kvs) = Inr j" by (simp add: dict_items)
  then show ?case using normalize_Inr by blast
next
  case (2 xs)
  then have "normalize_py x = Inr (normalized x)" if "x \<in> set xs" for x
    using that by (simp add: list_all_iff)
  then have "sequence_err (map normalize_py xs) = Inr (map normalized xs)"
    by (intro sequence_err_all) simp
  then have "\<exists>j. normalize_py (PList xs) = Inr j" by simp
  then show ?case using normalize_Inr by blast
next
  case (3 xs)
  then have "normalize_py x = Inr (normalized x)" if "x \<in> set xs" for x
    using that by (simp add: list_all_iff)
  then have "sequence_err (map normalize_py xs) = Inr (map normalized xs)"
    by (intro sequence_err_all) simp
  then have "\<exists>j. normalize_py (PTuple xs) = Inr j" by simp
  then show ?case using normalize_Inr by blast
next
  case (4 xs)
  from nf_set [OF this] show ?case using normalize_Inr by blast
qed (simp_all add: normalized_def)



subsection \<open>Determinism of the canonical encoding\<close>











subsection \<open>The form of the store's identifier\<close>

lemma build_spec_wf:
  "well_formed params \<Longrightarrow> well_formed env \<Longrightarrow> well_formed (build_spec params seed code_version env)"
  by (cases code_version) (simp_all add: build_spec_def)

text \<open>
  Claim C2, as the code has it.  The identifier that \<open>compute_run_id\<close> returns is the
  whole hexadecimal digest of SHA-256: 64 characters, each a digit or a lowercase
  letter \<open>a\<close> to \<open>f\<close>.  It is not cut to 12 characters; in \<open>core.py\<close> only the separate
  function \<open>make_run_id\<close>, which the store does not call, takes the prefix \<open>h[:12]\<close>.
  An identifier is returned whenever the parameters and the environment are well formed.
\<close>

theorem compute_run_id_digest:
  "(compute_run_id collected params seed code_version env = Inr run_id
      \<longrightarrow> length run_id = 64 \<and> lowercase_hex run_id)
   \<and> (well_formed params \<and> well_formed (case env of None \<Rightarrow> collected | Some e \<Rightarrow> e)
      \<longrightarrow> (\<exists>r. compute_run_id collected params seed code_version env = Inr r))"
proof (rule conjI; rule impI)
  assume "compute_run_id collected params seed code_version env = Inr run_id"
  then show "length run_id = 64 \<and> lowercase_hex run_id"
    by (auto simp: compute_run_id_def hash_spec_def hexdigest_length hexdigest_lower
             split: sum.splits)
next
  assume "well_formed params \<and> well_formed (case env of None \<Rightarrow> collected | Some e \<Rightarrow> e)"
  then have "well_formed (build_spec params seed code_version
                            (case env of None \<Rightarrow> collected | Some e \<Rightarrow> e))"
    by (simp add: build_spec_wf)
  then show "\<exists>r. compute_run_id collected params seed code_version env = Inr r"
    by (simp add: compute_run_id_def hash_spec_def wf_normalize)
qed

theorem compute_run_id_digest_witness:
  "well_formed (PDict [(KStr ''steps'', PInt 5)])
   \<and> well_formed (case Some (PDict []) of None \<Rightarrow> PDict [] | Some e \<Rightarrow> e)
   \<and> (\<exists>run_id. compute_run_id (PDict []) (PDict [(KStr ''steps'', PInt 5)]) 3 None (Some (PDict []))
                  = Inr run_id
               \<and> length run_id = 64 \<and> lowercase_hex run_id)"
proof -
  have w: "well_formed (PDict [(KStr ''steps'', PInt 5)])"
    "well_formed (case Some (PDict []) of None \<Rightarrow> PDict [] | Some e \<Rightarrow> e)"
    by simp_all
  note t = compute_run_id_digest [of "PDict []" "PDict [(KStr ''steps'', PInt 5)]" 3 None
      "Some (PDict [])"]
  from t w obtain r where
    r: "compute_run_id (PDict []) (PDict [(KStr ''steps'', PInt 5)]) 3 None (Some (PDict [])) = Inr r"
    by blast
  with t [of r] have "length r = 64 \<and> lowercase_hex r" by blast
  with r w show ?thesis by blast
qed

text \<open>The identifier of the run with \<open>params = {"steps": 5}\<close>, seed 3, no code version
  and an empty environment has 64 characters, not 12.\<close>

theorem compute_run_id_not_truncated:
  "map_sum id length
     (compute_run_id (PDict []) (PDict [(KStr ''steps'', PInt 5)]) 3 None (Some (PDict [])))
     = Inr 64
   \<and> map_sum id length
     (compute_run_id (PDict []) (PDict [(KStr ''steps'', PInt 5)]) 3 None (Some (PDict [])))
     \<noteq> Inr 12"
  by (simp add: compute_run_id_def hash_spec_def norm_ex hexdigest_length)

section \<open>Properties of the sweep enumeration\<close>

lemma product_py_aux:
  "fold (\<lambda>pool result. concat (map (\<lambda>x. map (\<lambda>y. x @ [y]) pool) result)) pools acc
     = concat (map (\<lambda>x. map ((@) x) (product_lists pools)) acc)"
proof (induction pools arbitrary: acc)
  case Nil
  then show ?case by (induction acc) auto
next
  case (Cons pool pools)
  have "concat (map (\<lambda>x. map ((@) x) (product_lists pools))
                  (concat (map (\<lambda>x. map (\<lambda>y. x @ [y]) pool) acc)))
      = concat (map (\<lambda>x. map ((@) x) (product_lists (pool # pools))) acc)"
  proof (induction acc)
    case Nil
    then show ?case by simp
  next
    case (Cons a acc)
    have "\<And>x. (@) (a @ [x]) = (\<lambda>zs. a @ x # zs)" by auto
    with Cons show ?case by (simp add: map_concat o_def)
  qed
  then show ?case by (simp add: Cons.IH)
qed

lemma product_py_eq: "product_py pools = product_lists pools"
  proof -
  have "map ((@) []) (product_lists pools) = product_lists pools" by (simp add: map_idI)
  then show ?thesis by (simp add: product_py_def product_py_aux)
qed

lemma zip_product_nested:
  "map (zip (map fst axes)) (product_lists (map snd axes)) = nested_loops axes"
proof (induction axes)
  case Nil
  then show ?case by simp
next
  case (Cons a axes)
  let ?P = "product_lists (map snd axes)" and ?ks = "map fst axes"
  have "nested_loops (a # axes)
          = concat (map (\<lambda>v. map ((#) (fst a, v)) (map (zip ?ks) ?P)) (snd a))"
    by (simp add: Cons.IH)
  also have "\<dots> = map (zip (fst a # ?ks)) (concat (map (\<lambda>v. map ((#) v) ?P) (snd a)))"
    by (simp add: map_concat o_def)
  finally show ?case by simp
qed

lemma dict_of_zip:
  assumes "distinct keys"
  shows "dict_of (zip keys combo) = zip keys combo"
proof -
  have "map fst (zip keys combo) = take (min (length keys) (length combo)) keys"
    by (rule map_fst_zip_take)
  with assms have "distinct (map fst (zip keys combo))" by simp
  then show ?thesis by (rule dict_of_distinct)
qed

lemma expand_grid_nested:
  assumes "distinct (map fst axes)"
  shows "expand_grid (JDict (map (\<lambda>axis. (fst axis, JList (snd axis))) axes))
           = Inr (map JDict (nested_loops axes))"
proof -
  let ?d = "map (\<lambda>axis. (fst axis, JList (snd axis))) axes"
  have keys: "map fst ?d = map fst axes" by (simp add: o_def)
  have look: "dict_get ?d (fst axis) = Some (JList (snd axis))" if "axis \<in> set axes" for axis
  proof -
    from assms have "distinct (map fst ?d)" by (simp add: o_def)
    moreover from that have "(fst axis, JList (snd axis)) \<in> set ?d" by force
    ultimately show ?thesis unfolding dict_get_def by (rule map_of_is_SomeI)
  qed
  have "map (\<lambda>key. case dict_get ?d key of None \<Rightarrow> Inl KeyError | Some v \<Rightarrow> list_py v)
            (map fst axes)
          = map (\<lambda>axis. Inr (snd axis)) axes"
    by (simp add: look)
  moreover have "sequence_err (map (\<lambda>axis. Inr (snd axis)) axes) = Inr (map snd axes)"
    by (rule sequence_err_Inr)
  ultimately have vals: "sequence_err (map (\<lambda>key. case dict_get ?d key of
                                     None \<Rightarrow> Inl KeyError | Some v \<Rightarrow> list_py v) (map fst axes))
          = Inr (map snd axes)"
    by (simp only:)
  have "map (\<lambda>combo. JDict (dict_of (zip (map fst axes) combo))) (product_lists (map snd axes))
          = map JDict (map (zip (map fst axes)) (product_lists (map snd axes)))"
    using assms by (simp add: dict_of_zip)
  then show ?thesis
    by (simp add: keys vals product_py_eq zip_product_nested del: map_map)
qed

text \<open>
  Claim C4.  For the grid \<open>{params: {"a": [1,2], "b": [10,20]}, seeds: [0,1]}\<close> the
  enumerator yields exactly the eight listed pairs in the listed order, and they are
  pairwise distinct.  In general, for a grid whose \<open>params\<close> are axes (in declaration
  order, with distinct names, as the keys of a dict are) and whose \<open>seeds\<close> is a list, the
  pairs are those of the nested loops over the axes in declaration order, the last axis
  varying fastest, each combination paired with every seed.  \<open>iter_sweep\<close> is a function
  of the grid alone, so enumerating the same grid again gives the same sequence.
\<close>

theorem sweep_order:
  "iter_sweep [(''params'', JDict [(''a'', JList [JInt 1, JInt 2]),
                                  (''b'', JList [JInt 10, JInt 20])]),
               (''seeds'', JList [JInt 0, JInt 1])]
     = Inr [(JDict [(''a'', JInt 1), (''b'', JInt 10)], JInt 0),
            (JDict [(''a'', JInt 1), (''b'', JInt 10)], JInt 1),
            (JDict [(''a'', JInt 1), (''b'', JInt 20)], JInt 0),
            (JDict [(''a'', JInt 1), (''b'', JInt 20)], JInt 1),
            (JDict [(''a'', JInt 2), (''b'', JInt 10)], JInt 0),
            (JDict [(''a'', JInt 2), (''b'', JInt 10)], JInt 1),
            (JDict [(''a'', JInt 2), (''b'', JInt 20)], JInt 0),
            (JDict [(''a'', JInt 2), (''b'', JInt 20)], JInt 1)]
   \<and> distinct [(JDict [(''a'', JInt 1), (''b'', JInt 10)], JInt 0),
            (JDict [(''a'', JInt 1), (''b'', JInt 10)], JInt 1),
            (JDict [(''a'', JInt 1), (''b'', JInt 20)], JInt 0),
            (JDict [(''a'', JInt 1), (''b'', JInt 20)], JInt 1),
            (JDict [(''a'', JInt 2), (''b'', JInt 10)], JInt 0),
            (JDict [(''a'', JInt 2), (''b'', JInt 10)], JInt 1),
            (JDict [(''a'', JInt 2), (''b'', JInt 20)], JInt 0),
            (JDict [(''a'', JInt 2), (''b'', JInt 20)], JInt 1)]
   \<and> (distinct (map fst axes) \<and> axes \<noteq> []
        \<and> dict_get grid ''params'' = Some (JDict (map (\<lambda>axis. (fst axis, JList (snd axis))) axes))
        \<and> dict_get grid ''seeds'' = Some (JList seeds)
      \<longrightarrow> iter_sweep grid
            = Inr (concat (map (\<lambda>combo. map (\<lambda>seed. (JDict combo, seed)) seeds)
                               (nested_loops axes))))"
proof (intro conjI impI)
  show "iter_sweep [(''params'', JDict [(''a'', JList [JInt 1, JInt 2]),
                                  (''b'', JList [JInt 10, JInt 20])]),
               (''seeds'', JList [JInt 0, JInt 1])]
     = Inr [(JDict [(''a'', JInt 1), (''b'', JInt 10)], JInt 0),
            (JDict [(''a'', JInt 1), (''b'', JInt 10)], JInt 1),
            (JDict [(''a'', JInt 1), (''b'', JInt 20)], JInt 0),
            (JDict [(''a'', JInt 1), (''b'', JInt 20)], JInt 1),
            (JDict [(''a'', JInt 2), (''b'', JInt 10)], JInt 0),
            (JDict [(''a'', JInt 2), (''b'', JInt 10)], JInt 1),
            (JDict [(''a'', JInt 2), (''b'', JInt 20)], JInt 0),
            (JDict [(''a'', JInt 2), (''b'', JInt 20)], JInt 1)]"
    by (simp add: iter_sweep_def dict_get_def product_py_def dict_of_def dict_set_def)
next
  show "distinct [(JDict [(''a'', JInt 1), (''b'', JInt 10)], JInt 0),
            (JDict [(''a'', JInt 1), (''b'', JInt 10)], JInt 1),
            (JDict [(''a'', JInt 1), (''b'', JInt 20)], JInt 0),
            (JDict [(''a'', JInt 1), (''b'', JInt 20)], JInt 1),
            (JDict [(''a'', JInt 2), (''b'', JInt 10)], JInt 0),
            (JDict [(''a'', JInt 2), (''b'', JInt 10)], JInt 1),
            (JDict [(''a'', JInt 2), (''b'', JInt 20)], JInt 0),
            (JDict [(''a'', JInt 2), (''b'', JInt 20)], JInt 1)]"
    by simp
next
  assume h: "distinct (map fst axes) \<and> axes \<noteq> []
        \<and> dict_get grid ''params'' = Some (JDict (map (\<lambda>axis. (fst axis, JList (snd axis))) axes))
        \<and> dict_get grid ''seeds'' = Some (JList seeds)"
  let ?d = "map (\<lambda>axis. (fst axis, JList (snd axis))) axes"
  from h have p: "dict_get grid ''params'' = Some (JDict ?d)"
    and sd: "dict_get grid ''seeds'' = Some (JList seeds)"
    and ne: "axes \<noteq> []" and dist: "distinct (map fst axes)"
    by simp_all
  from ne have tr: "truthy (JDict ?d)" by simp
  have eg: "expand_grid (JDict ?d) = Inr (map JDict (nested_loops axes))"
    by (rule expand_grid_nested [OF dist])
  show "iter_sweep grid
            = Inr (concat (map (\<lambda>combo. map (\<lambda>seed. (JDict combo, seed)) seeds)
                               (nested_loops axes)))"
    unfolding iter_sweep_def Let_def p sd option.case tr if_True eg sum.case list_py.simps
    by (simp add: o_def)
qed

theorem sweep_order_witness:
  "distinct (map fst [(''n'', [JInt 1, JInt 2]), (''m'', [JStr ''x''])])
   \<and> [(''n'', [JInt 1, JInt 2]), (''m'', [JStr ''x''])] \<noteq> []
   \<and> dict_get [(''params'', JDict [(''n'', JList [JInt 1, JInt 2]), (''m'', JList [JStr ''x''])]),
               (''seeds'', JList [JInt 5])] ''params''
       = Some (JDict (map (\<lambda>axis. (fst axis, JList (snd axis)))
                       [(''n'', [JInt 1, JInt 2]), (''m'', [JStr ''x''])]))
   \<and> dict_get [(''params'', JDict [(''n'', JList [JInt 1, JInt 2]), (''m'', JList [JStr ''x''])]),
               (''seeds'', JList [JInt 5])] ''seeds'' = Some (JList [JInt 5])
   \<and> iter_sweep [(''params'', JDict [(''n'', JList [JInt 1, JInt 2]), (''m'', JList [JStr ''x''])]),
                 (''seeds'', JList [JInt 5])]
       = Inr [(JDict [(''n'', JInt 1), (''m'', JStr ''x'')], JInt 5),
              (JDict [(''n'', JInt 2), (''m'', JStr ''x'')], JInt 5)]"
  using sweep_order [of "[(''n'', [JInt 1, JInt 2]), (''m'', [JStr ''x''])]"
      "[(''params'', JDict [(''n'', JList [JInt 1, JInt 2]), (''m'', JList [JStr ''x''])]),
        (''seeds'', JList [JInt 5])]" "[JInt 5]"]
  by (simp add: dict_get_def)

text \<open>
  Claim C10.  A grid without a \<open>params\<close> key, or with an empty \<open>params\<close> mapping, and
  with neither a \<open>seeds\<close> nor a \<open>seed\<close> key yields exactly one pair: the empty parameter
  mapping with seed 0.
\<close>

theorem iter_sweep_default:
  assumes "dict_get grid ''params'' = None \<or> dict_get grid ''params'' = Some (JDict [])"
    and "''seeds'' \<notin> fst ` set grid" and "''seed'' \<notin> fst ` set grid"
  shows "iter_sweep grid = Inr [(JDict [], JInt 0)]"
proof -
  from assms(2,3) have "dict_get grid ''seeds'' = None" "dict_get grid ''seed'' = None"
    by (simp_all add: dict_get_def map_of_eq_None_iff)
  with assms(1) show ?thesis
    by (auto simp: iter_sweep_def)
qed

theorem iter_sweep_default_witness:
  "(dict_get [(''tags'', JList [JStr ''t''])] ''params'' = None
      \<or> dict_get [(''tags'', JList [JStr ''t''])] ''params'' = Some (JDict []))
   \<and> ''seeds'' \<notin> fst ` set [(''tags'', JList [JStr ''t''])]
   \<and> ''seed'' \<notin> fst ` set [(''tags'', JList [JStr ''t''])]
   \<and> iter_sweep [(''tags'', JList [JStr ''t''])] = Inr [(JDict [], JInt 0)]"
  using iter_sweep_default [of "[(''tags'', JList [JStr ''t''])]"]
  by (simp add: dict_get_def)

section \<open>Properties of the run store\<close>

lemma dict_set_same: "dict_get d k = Some v \<Longrightarrow> dict_set d k v = d"
  by (simp add: dict_get_def dict_set_def update_triv)

lemma mkdir_dir:
  assumes "mkdir s run_id = Inr s1"
  shows "\<exists>rd. dict_get (runs_dir s1) run_id = Some (Dir rd)"
  using assms
  by (auto simp: mkdir_def dict_get_def map_add_def split: option.splits node.splits)

text \<open>
  Claim C8.  For every encoding name other than \<open>npz\<close>, \<open>zarr\<close> and \<open>hdf5\<close>, saving
  the arrays raises \<open>ValueError\<close> and leaves the run directory as it was (nothing is
  written), and loading raises \<open>ValueError\<close> without reading; no other encoding is tried.
  A \<open>save\<close> with such a name fails in the same way: it has created the run directory if
  it was absent, and has written neither arrays nor metadata nor the manifest.
\<close>

theorem unsupported_format:
  assumes "arrays_format \<notin> {''npz'', ''zarr'', ''hdf5''}"
  shows "save_arrays L arrays_format arrays rd = (rd, Inl ValueError)
       \<and> load_arrays L arrays_format arrays_path rd = Inl ValueError
       \<and> (\<forall>s1. mkdir s run_id = Inr s1
            \<longrightarrow> save L s run_id arrays metadata arrays_format = (s1, Inl ValueError))"
proof (intro conjI allI impI)
  from assms show sa: "save_arrays L arrays_format arrays rd = (rd, Inl ValueError)"
    by (simp add: save_arrays_def)
  from assms show "load_arrays L arrays_format arrays_path rd = Inl ValueError"
    by (simp add: load_arrays_def)
  fix s1 assume m: "mkdir s run_id = Inr s1"
  from mkdir_dir [OF m] obtain rd' where d: "dict_get (runs_dir s1) run_id = Some (Dir rd')"
    by blast
  from assms have "save_arrays L arrays_format arrays rd' = (rd', Inl ValueError)"
    by (simp add: save_arrays_def)
  moreover have "put_run_dir s1 run_id rd' = s1"
    by (simp add: put_run_dir_def dict_set_same [OF d])
  ultimately show "save L s run_id arrays metadata arrays_format = (s1, Inl ValueError)"
    by (simp add: save_def m d Let_def)
qed

theorem unsupported_format_witness:
  "''csv'' \<notin> {''npz'', ''zarr'', ''hdf5''}
   \<and> save_arrays example_libs ''csv'' [(''x'', [1, 2])] empty_run_dir
       = (empty_run_dir, Inl ValueError)
   \<and> load_arrays example_libs ''csv'' ''arrays.csv'' empty_run_dir = Inl ValueError
   \<and> mkdir empty_store ''r1'' = Inr \<lparr>manifest_json = Missing, runs_dir = [(''r1'', Dir empty_run_dir)]\<rparr>
   \<and> save example_libs empty_store ''r1'' [(''x'', [1, 2])] [] ''csv''
       = (\<lparr>manifest_json = Missing, runs_dir = [(''r1'', Dir empty_run_dir)]\<rparr>, Inl ValueError)"
proof -
  have ne: "''csv'' \<notin> {''npz'', ''zarr'', ''hdf5''}" by simp
  have m: "mkdir empty_store ''r1''
             = Inr \<lparr>manifest_json = Missing, runs_dir = [(''r1'', Dir empty_run_dir)]\<rparr>"
    by (simp add: mkdir_def empty_store_def dict_get_def)
  from unsupported_format [OF ne, of example_libs "[(''x'', [1, 2])]" empty_run_dir
      "''arrays.csv''" empty_store "''r1''" "[]"] ne m
  show ?thesis by blast
qed

subsection \<open>Documents written with sorted keys\<close>

lemma sort_keys_json_idem: "sort_keys_json (sort_keys_json j) = sort_keys_json j"
proof (induction j)
  case (JList xs)
  then show ?case by simp
next
  case (JDict kvs)
  let ?g = "\<lambda>kv. (fst kv, sort_keys_json (snd kv))"
  have "sort_keys_json (sort_keys_json (snd kv)) = sort_keys_json (snd kv)"
    if "kv \<in> set kvs" for kv
    using JDict that by (cases kv) auto
  then have vals: "map ?g (map ?g kvs) = map ?g kvs" by simp
  have "sort_keys_json (sort_keys_json (JDict kvs))
          = JDict (sort_key fst (map ?g (sort_key fst (map ?g kvs))))"
    by simp
  also have "\<dots> = JDict (sort_key fst (sort_key fst (map ?g (map ?g kvs))))"
    by (simp only: map_sort_key_values)
  also have "\<dots> = sort_keys_json (JDict kvs)"
    by (simp only: vals sort_key_idem sort_keys_json.simps)
  finally show ?case .
qed simp_all

subsection \<open>The manifest after a save\<close>

lemma manifest_entry_written:
  assumes "dict_get m ''runs'' = Some (JDict rs)"
  shows "manifest_entry (s\<lparr>manifest_json := write_json (JDict (dict_set m ''runs'' (JDict rs')))\<rparr>) r
           = map_option sort_keys_json (dict_get rs' r)"
proof -
  have "dict_get (dict_set m ''runs'' (JDict rs')) ''runs'' = Some (JDict rs')"
    by (simp add: dict_get_def dict_set_def update_conv')
  then show ?thesis
    by (simp add: manifest_entry_def load_manifest_def write_json_def dict_get_sorted)
qed

lemma load_manifest_cong:
  "manifest_json s' = manifest_json s \<Longrightarrow> load_manifest s' = load_manifest s"
  by (simp add: load_manifest_def)

lemma mkdir_manifest: "mkdir s run_id = Inr s1 \<Longrightarrow> manifest_json s1 = manifest_json s"
  by (auto simp: mkdir_def split: option.splits node.splits)

lemma put_run_dir_manifest [simp]: "manifest_json (put_run_dir s run_id rd) = manifest_json s"
  by (simp add: put_run_dir_def)

lemma update_manifest_cases:
  "manifest_json (fst (update_manifest s run_id metadata)) = manifest_json s
   \<or> (\<exists>m rs e. load_manifest s = Inr (JDict m) \<and> dict_get m ''runs'' = Some (JDict rs)
        \<and> manifest_json (fst (update_manifest s run_id metadata))
            = write_json (JDict (dict_set m ''runs'' (JDict (dict_set rs run_id e)))))"
proof (cases "load_manifest s")
  case (Inl e)
  then show ?thesis by (simp add: update_manifest_def)
next
  case (Inr manifest)
  show ?thesis
  proof (cases manifest)
    case (JDict m)
    show ?thesis
    proof (cases "dict_get m ''runs''")
      case None
      with Inr JDict show ?thesis by (simp add: update_manifest_def Let_def)
    next
      case (Some rv)
      with Inr JDict show ?thesis
        by (cases rv) (auto simp add: update_manifest_def Let_def)
    qed
  qed (simp_all add: Inr update_manifest_def Let_def)
qed

lemma save_manifest:
  "manifest_json (fst (save L s run_id arrays metadata arrays_format)) = manifest_json s
   \<or> (\<exists>m rs e. load_manifest s = Inr (JDict m) \<and> dict_get m ''runs'' = Some (JDict rs)
        \<and> manifest_json (fst (save L s run_id arrays metadata arrays_format))
            = write_json (JDict (dict_set m ''runs'' (JDict (dict_set rs run_id e)))))"
proof (cases "mkdir s run_id")
  case (Inl e)
  then show ?thesis by (simp add: save_def)
next
  case (Inr s1)
  note m1 = mkdir_manifest [OF Inr]
  show ?thesis
  proof (cases "dict_get (runs_dir s1) run_id")
    case None
    with Inr m1 show ?thesis by (simp add: save_def)
  next
    case (Some nd)
    show ?thesis
    proof (cases nd)
      case File
      with Inr Some m1 show ?thesis by (simp add: save_def)
    next
      case (Dir rd)
      let ?saved = "save_arrays L arrays_format arrays rd"
      let ?s2 = "put_run_dir s1 run_id (fst ?saved)"
      show ?thesis
      proof (cases "snd ?saved")
        case (Inl e)
        with Inr Some Dir m1 show ?thesis by (simp add: save_def Let_def)
      next
        case (Inr arrays_path)
        let ?md = "dict_set (dict_set (dict_set metadata ''run_id'' (JStr run_id))
                     ''arrays_format'' (JStr arrays_format)) ''arrays_path'' (JStr arrays_path)"
        let ?s3 = "put_run_dir ?s2 run_id
                     ((fst ?saved)\<lparr>metadata_json := write_json (JDict ?md)\<rparr>)"
        have m3: "manifest_json ?s3 = manifest_json s" by (simp add: m1)
        have res: "fst (save L s run_id arrays metadata arrays_format)
                     = fst (update_manifest ?s3 run_id ?md)"
          using \<open>mkdir s run_id = Inr s1\<close> Some Dir Inr
          by (simp add: save_def Let_def split: sum.splits)
        from update_manifest_cases [of ?s3 run_id ?md]
        show ?thesis
          unfolding res m3 load_manifest_cong [OF m3] .
      qed
    qed
  qed
qed

text \<open>
  Claim C9.  Whatever the manifest holds and whatever is saved, a save of \<open>run_id\<close>
  leaves the manifest entry of every other run identifier unchanged: it is absent
  afterwards if it was absent, and otherwise the same JSON document (the manifest is
  rewritten with sorted keys, so entries are compared up to the order of keys inside
  them).  This covers the saves that fail: they leave the manifest file as it was.
\<close>

theorem manifest_frame:
  assumes "r \<noteq> run_id"
  shows "map_option sort_keys_json
           (manifest_entry (fst (save L s run_id arrays metadata arrays_format)) r)
         = map_option sort_keys_json (manifest_entry s r)"
proof -
  let ?s' = "fst (save L s run_id arrays metadata arrays_format)"
  from save_manifest [of L s run_id arrays metadata arrays_format]
  show ?thesis
  proof (elim disjE exE conjE)
    assume "manifest_json ?s' = manifest_json s"
    then show ?thesis by (simp add: manifest_entry_def load_manifest_def)
  next
    fix m rs e
    assume lm: "load_manifest s = Inr (JDict m)"
      and rs: "dict_get m ''runs'' = Some (JDict rs)"
      and w: "manifest_json ?s' = write_json (JDict (dict_set m ''runs'' (JDict (dict_set rs run_id e))))"
    have "?s' = ?s'\<lparr>manifest_json := write_json (JDict (dict_set m ''runs'' (JDict (dict_set rs run_id e))))\<rparr>"
      using w by simp
    then have "manifest_entry ?s' r = map_option sort_keys_json (dict_get (dict_set rs run_id e) r)"
      using manifest_entry_written [OF rs, where s = ?s' and rs' = "dict_set rs run_id e" and r = r]
      by simp
    also have "dict_get (dict_set rs run_id e) r = dict_get rs r"
      using assms by (simp add: dict_get_def dict_set_def update_conv')
    also have "dict_get rs r = manifest_entry s r"
      using lm rs by (simp add: manifest_entry_def)
    finally show ?thesis by (simp add: option.map_comp o_def sort_keys_json_idem)
  qed
qed

theorem manifest_frame_witness:
  "''a'' \<noteq> ''b''
   \<and> manifest_entry
         \<lparr>manifest_json = Content (JDict [(''runs'', JDict [(''a'',
            JDict [(''tags'', JList [JStr ''x'']), (''timestamp'', JStr ''2024-01-01'')])])]),
          runs_dir = ([] :: (string \<times> arrays node) list)\<rparr> ''a''
       = Some (JDict [(''tags'', JList [JStr ''x'']), (''timestamp'', JStr ''2024-01-01'')])
   \<and> map_option sort_keys_json
         (manifest_entry
            (fst (save example_libs
                   \<lparr>manifest_json = Content (JDict [(''runs'', JDict [(''a'',
                      JDict [(''tags'', JList [JStr ''x'']), (''timestamp'', JStr ''2024-01-01'')])])]),
                    runs_dir = ([] :: (string \<times> arrays node) list)\<rparr>
                   ''b'' [(''v'', [1, 2, 3])] [(''timestamp'', JStr ''2024-02-02'')] ''npz'')) ''a'')
       = map_option sort_keys_json
           (manifest_entry
              \<lparr>manifest_json = Content (JDict [(''runs'', JDict [(''a'',
                 JDict [(''tags'', JList [JStr ''x'']), (''timestamp'', JStr ''2024-01-01'')])])]),
               runs_dir = ([] :: (string \<times> arrays node) list)\<rparr> ''a'')"
proof (intro conjI)
  show ne: "''a'' \<noteq> ''b''" by simp
  show "manifest_entry
         \<lparr>manifest_json = Content (JDict [(''runs'', JDict [(''a'',
            JDict [(''tags'', JList [JStr ''x'']), (''timestamp'', JStr ''2024-01-01'')])])]),
          runs_dir = ([] :: (string \<times> arrays node) list)\<rparr> ''a''
       = Some (JDict [(''tags'', JList [JStr ''x'']), (''timestamp'', JStr ''2024-01-01'')])"
    by (simp add: manifest_entry_def load_manifest_def dict_get_def)
  show "map_option sort_keys_json
         (manifest_entry
            (fst (save example_libs
                   \<lparr>manifest_json = Content (JDict [(''runs'', JDict [(''a'',
                      JDict [(''tags'', JList [JStr ''x'']), (''timestamp'', JStr ''2024-01-01'')])])]),
                    runs_dir = ([] :: (string \<times> arrays node) list)\<rparr>
                   ''b'' [(''v'', [1, 2, 3])] [(''timestamp'', JStr ''2024-02-02'')] ''npz'')) ''a'')
       = map_option sort_keys_json
           (manifest_entry
              \<lparr>manifest_json = Content (JDict [(''runs'', JDict [(''a'',
                 JDict [(''tags'', JList [JStr ''x'']), (''timestamp'', JStr ''2024-01-01'')])])]),
               runs_dir = ([] :: (string \<times> arrays node) list)\<rparr> ''a'')"
    by (rule manifest_frame [OF ne])
qed

subsection \<open>Listing\<close>

lemma fallback_entry_run_id: "subscript (fallback_entry name rd) ''run_id'' = Inr (JStr name)"
  by (simp add: fallback_entry_def placeholder_def dict_get_def
           split: sum.splits json.splits)

lemma fallback_ids:
  "map (\<lambda>r. subscript r ''run_id'') (fallback xs) = map (\<lambda>name. Inr (JStr name)) (subdirs xs)"
  by (induction xs rule: fallback.induct) (simp_all add: fallback_entry_run_id)

lemma subdirs_conv: "subdirs xs = map fst (filter (\<lambda>p. snd p \<noteq> File) xs)"
  by (induction xs rule: subdirs.induct) simp_all

lemma map_fst_sort_key: "map fst (sort_key fst xs) = sort (map fst xs)"
proof (induction xs)
  case Nil
  then show ?case by simp
next
  case (Cons x xs)
  have "map fst (insort_key fst x ys) = insort (fst x) (map fst ys)" for ys
    by (induction ys) simp_all
  with Cons show ?case by simp
qed

lemma subdirs_sort: "subdirs (sort_key fst xs) = sort (subdirs xs)"
  by (simp add: subdirs_conv filter_sort map_fst_sort_key)

lemma fallback_placeholder:
  assumes "(name, Dir rd) \<in> set xs"
    and "\<forall>md. read_json (metadata_json rd) \<noteq> Inr (JDict md)"
  shows "placeholder name \<in> set (fallback xs)"
  using assms
proof (induction xs rule: fallback.induct)
  case (2 n r rest)
  show ?case
  proof (cases "(name, Dir rd) = (n, Dir r)")
    case True
    with 2 have "fallback_entry n r = placeholder name"
      by (auto simp: fallback_entry_def split: sum.splits json.splits)
    then show ?thesis by simp
  next
    case False
    with 2 show ?thesis by auto
  qed
qed simp_all

text \<open>
  Claim C6.  When the manifest file is absent, or holds a manifest without entries,
  \<open>list_runs\<close> does not fail: it returns one entry per subdirectory of \<open>runs/\<close>, in the
  order of their names, each with the name of its subdirectory as \<open>run_id\<close>; a
  subdirectory whose metadata cannot be read as a JSON object is listed as the
  placeholder with a null timestamp and no tags.
\<close>

theorem list_runs_fallback:
  assumes "manifest_json s = Missing
           \<or> (\<exists>m. manifest_json s = Content (JDict m) \<and> dict_get m ''runs'' = Some (JDict []))"
  shows "\<exists>listing. list_runs s = Inr listing
           \<and> map (\<lambda>r. subscript r ''run_id'') listing
               = map (\<lambda>name. Inr (JStr name)) (sort (subdirs (runs_dir s)))
           \<and> (\<forall>name rd. (name, Dir rd) \<in> set (runs_dir s)
                  \<and> (\<forall>md. read_json (metadata_json rd) \<noteq> Inr (JDict md))
                \<longrightarrow> placeholder name \<in> set listing)"
proof -
  let ?listing = "fallback (sort_key fst (runs_dir s))"
  from assms have "list_runs s = Inr ?listing"
    by (auto simp: list_runs_def load_manifest_def dict_get_def)
  moreover have "map (\<lambda>r. subscript r ''run_id'') ?listing
               = map (\<lambda>name. Inr (JStr name)) (sort (subdirs (runs_dir s)))"
    by (simp only: fallback_ids subdirs_sort)
  moreover have "placeholder name \<in> set ?listing"
    if "(name, Dir rd) \<in> set (runs_dir s)"
      and "\<forall>md. read_json (metadata_json rd) \<noteq> Inr (JDict md)" for name rd
    using that by (intro fallback_placeholder [of name rd]) simp_all
  ultimately show ?thesis by blast
qed

theorem list_runs_fallback_witness:
  "manifest_json
     \<lparr>manifest_json = Missing,
      runs_dir = [(''b'', Dir \<lparr>metadata_json = Unreadable, files = Map.empty\<rparr>),
                  (''notes.txt'', File),
                  (''a'', Dir \<lparr>metadata_json = Content (JDict [(''timestamp'', JStr ''2024-01-01'')]),
                           files = (Map.empty :: string \<rightharpoonup> arrays)\<rparr>)]\<rparr> = Missing
   \<and> list_runs
     \<lparr>manifest_json = Missing,
      runs_dir = [(''b'', Dir \<lparr>metadata_json = Unreadable, files = Map.empty\<rparr>),
                  (''notes.txt'', File),
                  (''a'', Dir \<lparr>metadata_json = Content (JDict [(''timestamp'', JStr ''2024-01-01'')]),
                           files = (Map.empty :: string \<rightharpoonup> arrays)\<rparr>)]\<rparr>
     = Inr [JDict [(''run_id'', JStr ''a''), (''timestamp'', JStr ''2024-01-01''), (''tags'', JList [])],
            JDict [(''run_id'', JStr ''b''), (''timestamp'', JNull), (''tags'', JList [])]]"
proof -
  let ?s = "\<lparr>manifest_json = Missing,
      runs_dir = [(''b'', Dir \<lparr>metadata_json = Unreadable, files = Map.empty\<rparr>),
                  (''notes.txt'', File),
                  (''a'', Dir \<lparr>metadata_json = Content (JDict [(''timestamp'', JStr ''2024-01-01'')]),
                           files = (Map.empty :: string \<rightharpoonup> arrays)\<rparr>)]\<rparr>"
  have m: "manifest_json ?s = Missing" by simp
  from list_runs_fallback [of ?s] obtain listing where "list_runs ?s = Inr listing"
    using m by blast
  moreover have "list_runs ?s
     = Inr [JDict [(''run_id'', JStr ''a''), (''timestamp'', JStr ''2024-01-01''), (''tags'', JList [])],
            JDict [(''run_id'', JStr ''b''), (''timestamp'', JNull), (''tags'', JList [])]]"
    by (simp add: list_runs_def load_manifest_def dict_get_def fallback_entry_def placeholder_def)
  ultimately show ?thesis using m by simp
qed

text \<open>
  Claim C5.  The claim asks that a non-empty manifest is listed in ascending order of
  timestamp with missing timestamps first.  \<open>_update_manifest\<close> records a missing
  timestamp as \<open>null\<close>, and the sort key \<open>item.get("timestamp", "")\<close> substitutes the
  empty string only for an absent key: after saving one run without a timestamp and one
  with a timestamp, the sort compares \<open>None\<close> with a string and \<open>list_runs\<close> raises
  \<open>TypeError\<close>.
\<close>

theorem list_runs_null_timestamp:
  "manifest_json (fst (save example_libs
        (fst (save example_libs empty_store ''a'' [(''x'', [1, 2])] [] ''npz''))
        ''b'' [(''x'', [3])] [(''timestamp'', JStr ''2024-01-01T00:00:00+00:00'')] ''npz''))
     = Content (JDict [(''runs'', JDict
         [(''a'', JDict [(''tags'', JList []), (''timestamp'', JNull)]),
          (''b'', JDict [(''tags'', JList []),
                         (''timestamp'', JStr ''2024-01-01T00:00:00+00:00'')])])])
   \<and> list_runs (fst (save example_libs
        (fst (save example_libs empty_store ''a'' [(''x'', [1, 2])] [] ''npz''))
        ''b'' [(''x'', [3])] [(''timestamp'', JStr ''2024-01-01T00:00:00+00:00'')] ''npz''))
     = Inl TypeError"
  by code_simp

subsection \<open>The latest run with a tag\<close>









end
